theory Spec2Isabelle
  imports Main "HOL-Library.Sublist" "HOL-Library.AList"
begin

section \<open>Data model of the restore script\<close>

text \<open>
  The development embeds \<^verbatim>\<open>scripts/restore-dynamodb-pitr/restore_dynamodb_pitr.py\<close>
  (class \<^verbatim>\<open>DynamoDBPITRRestore\<close>). The dictionaries \<^verbatim>\<open>self.tables\<close> and
  \<^verbatim>\<open>restore_tables\<close> always carry the same three keys, inserted in the order
  quotes, user_likes, user_views; they are total functions on an enumeration, iterated
  in that order.
\<close>

datatype table_key = quotes | user_likes | user_views

definition table_keys :: "table_key list" where
  "table_keys = [quotes, user_likes, user_views]"

fun base_names :: "table_key \<Rightarrow> string" where
  "base_names quotes = ''quote-lambda-tf-quotes''"
| "base_names user_likes = ''quote-lambda-tf-user-likes''"
| "base_names user_views = ''quote-lambda-tf-user-views''"

text \<open>
  A parsed \<^verbatim>\<open>datetime\<close>: the calendar fields that \<^verbatim>\<open>strftime\<close> prints, and
  \<open>epoch_micros\<close>, the position of the value on the UTC time line in microseconds
  (what \<^verbatim>\<open>astimezone(pytz.UTC)\<close> yields, after \<^verbatim>\<open>localize\<close> for a naive value).
  A \<^verbatim>\<open>timedelta\<close> is a number of microseconds.
\<close>

record datetime =
  dt_year :: nat
  dt_month :: nat
  dt_day :: nat
  dt_hour :: nat
  dt_minute :: nat
  dt_second :: nat
  dt_microsecond :: nat
  epoch_micros :: int

definition valid_datetime :: "datetime \<Rightarrow> bool" where
  "valid_datetime dt \<longleftrightarrow>
     1 \<le> dt_year dt \<and> dt_year dt \<le> 9999 \<and> 1 \<le> dt_month dt \<and> dt_month dt \<le> 12 \<and>
     1 \<le> dt_day dt \<and> dt_day dt \<le> 31 \<and> dt_hour dt < 24 \<and> dt_minute dt < 60 \<and>
     dt_second dt < 60 \<and> dt_microsecond dt < 1000000"

definition digit :: "nat \<Rightarrow> char" where
  "digit n = ''0123456789'' ! (n mod 10)"

definition pad2 :: "nat \<Rightarrow> string" where
  "pad2 n = [digit (n div 10), digit n]"

definition pad4 :: "nat \<Rightarrow> string" where
  "pad4 n = [digit (n div 1000), digit (n div 100), digit (n div 10), digit n]"

text \<open>
  \<^verbatim>\<open>dt.strftime('%Y%m%d%H%M%S')\<close>. The directives \<^verbatim>\<open>%m\<close>, \<^verbatim>\<open>%d\<close>, \<^verbatim>\<open>%H\<close>, \<^verbatim>\<open>%M\<close> and
  \<^verbatim>\<open>%S\<close> print two digits; \<^verbatim>\<open>%Y\<close> prints the year without padding (the C library's
  \<^verbatim>\<open>strftime\<close> on Linux), so a year below 1000 takes fewer than four characters.
\<close>

definition year_digits :: "nat \<Rightarrow> string" where
  "year_digits n =
     (if n < 10 then [digit n]
      else if n < 100 then pad2 n
      else if n < 1000 then digit (n div 100) # pad2 n
      else pad4 n)"

definition strftime :: "datetime \<Rightarrow> string" where
  "strftime dt =
     year_digits (dt_year dt) @ pad2 (dt_month dt) @ pad2 (dt_day dt) @
     pad2 (dt_hour dt) @ pad2 (dt_minute dt) @ pad2 (dt_second dt)"

definition timedelta_days :: "int \<Rightarrow> int" where
  "timedelta_days d = d * 86400000000"

text \<open>The fields of \<^verbatim>\<open>self\<close> that the orchestration reads.\<close>

record restore =
  environment :: string
  timeout_minutes :: int
  dry_run :: bool
  tables :: "table_key \<Rightarrow> string"
  restore_point_timestamp :: "string option"

definition configure_table_names :: "string \<Rightarrow> table_key \<Rightarrow> string" where
  "configure_table_names env key =
     (if env = ''dev'' then base_names key @ ''-dev'' else base_names key)"

definition init :: "string \<Rightarrow> int \<Rightarrow> bool \<Rightarrow> restore" where
  "init env timeout dry =
     \<lparr> environment = env, timeout_minutes = timeout, dry_run = dry,
       tables = configure_table_names env, restore_point_timestamp = None \<rparr>"

text \<open>
  \<^verbatim>\<open>_get_restore_table_names\<close>. The argument \<open>now\<close> is what \<^verbatim>\<open>datetime.now()\<close>
  returns; it is read only when no restore point has been parsed yet
  (\<^verbatim>\<open>not self.restore_point_timestamp\<close> holds for \<^verbatim>\<open>None\<close> and for the empty string).
\<close>

definition get_restore_table_names :: "restore \<Rightarrow> datetime \<Rightarrow> table_key \<Rightarrow> string" where
  "get_restore_table_names self now key =
     (let timestamp =
        (case restore_point_timestamp self of
           None \<Rightarrow> strftime now
         | Some ts \<Rightarrow> if ts = [] then strftime now else ts)
      in tables self key @ ''-restore-'' @ timestamp)"

text \<open>
  \<^verbatim>\<open>_get_restore_table_names\<close> of the older variant, \<^verbatim>\<open>scripts/restore_dynamodb_pitr.py\<close>
  (lines 246 to 253): the token is always printed from \<^verbatim>\<open>datetime.now()\<close>.
\<close>

definition get_restore_table_names_older :: "restore \<Rightarrow> datetime \<Rightarrow> table_key \<Rightarrow> string" where
  "get_restore_table_names_older self now key =
     (let timestamp = strftime now
      in tables self key @ ''-restore-'' @ timestamp)"

text \<open>
  Lines 154 to 158 of \<^verbatim>\<open>run\<close>: the parsed restore point fixes the timestamp token.
\<close>

definition set_restore_point :: "restore \<Rightarrow> datetime \<Rightarrow> restore" where
  "set_restore_point self restore_dt =
     self\<lparr>restore_point_timestamp := Some (strftime restore_dt)\<rparr>"

section \<open>The provider, the clock and the lock as an environment\<close>

text \<open>
  A boto3 call either returns or raises \<^verbatim>\<open>ClientError\<close> with an error code.
\<close>

datatype 'a response = Ok 'a | ClientError string

text \<open>
  An item is a dictionary from attribute names to attribute values. The part of a
  \<^verbatim>\<open>describe_table\<close> answer that the script reads: \<^verbatim>\<open>TableStatus\<close>, the attribute
  names of \<^verbatim>\<open>KeySchema\<close>, and \<^verbatim>\<open>RestoreSummary.EarliestRestorableDateTime\<close>.
\<close>

type_synonym item = "(string \<times> string) list"

record table_description =
  TableStatus :: string
  KeySchema :: "string list"
  EarliestRestorableDateTime :: "int option"

datatype write_request = DeleteRequest item | PutRequest item

text \<open>
  The answers of the provider to one paginated scan: a response without
  \<^verbatim>\<open>LastEvaluatedKey\<close> ends the chain, a response with one is followed by the answer
  to the scan that continues from it, and any scan of the chain may raise.
\<close>

datatype scan_stream =
    ScanFailed string
  | LastPage "item list"
  | MorePages "item list" item scan_stream

datatype call =
    DescribeTable string
  | ListTables
  | DeleteTable string
  | RestoreTableToPointInTime string string int
  | DescribeContinuousBackups string
  | ScanCount string
  | Scan string "item option"
  | BatchWriteItem string "write_request list"

datatype log_msg =
    ParseFailed string
  | TooOld int
  | InFuture
  | WithinLimit int int
  | CountsMatch table_key nat nat
  | RestoreFewer table_key nat nat
  | RestoreMore table_key nat nat

datatype event =
    Call call
  | StatusUpdate string "string option"
  | Log log_msg
  | LockAcquired
  | LockFailed
  | LockReleased
  | Sleep nat

text \<open>
  The environment of a run. Every answer may depend on the events of the run so far
  (the first argument), so the provider may change between two calls. \<open>isoparse\<close>
  is \<^verbatim>\<open>dateutil.parser.isoparse\<close> followed by the localisation of a naive value;
  \<open>Inl\<close> carries the message of the \<^verbatim>\<open>ValueError\<close>. \<open>now\<close> is the wall clock,
  \<open>lock_acquire\<close> the result of \<^verbatim>\<open>RestoreLock.acquire\<close>.
\<close>

record world =
  isoparse :: "string \<Rightarrow> string + datetime"
  now :: "event list \<Rightarrow> datetime"
  lock_acquire :: "event list \<Rightarrow> bool"
  describe_table :: "event list \<Rightarrow> string \<Rightarrow> table_description response"
  list_tables :: "event list \<Rightarrow> string list list response"
  delete_table :: "event list \<Rightarrow> string \<Rightarrow> unit response"
  restore_table_to_point_in_time :: "event list \<Rightarrow> string \<Rightarrow> string \<Rightarrow> int \<Rightarrow> unit response"
  scan_count :: "event list \<Rightarrow> string \<Rightarrow> nat response"
  scan :: "event list \<Rightarrow> string \<Rightarrow> scan_stream"
  batch_write_item :: "event list \<Rightarrow> string \<Rightarrow> write_request list \<Rightarrow> unit response"

section \<open>The operations\<close>

text \<open>
  Every operation takes the events so far and returns its result with the events it
  adds, in order.
\<close>

text \<open>\<^verbatim>\<open>_update_status\<close>: an empty error message is not written.\<close>

definition update_status :: "string \<Rightarrow> string option \<Rightarrow> event" where
  "update_status status error_message =
     StatusUpdate status
       (case error_message of None \<Rightarrow> None | Some m \<Rightarrow> if m = [] then None else Some m)"

subsection \<open>Reusable and stale restore tables\<close>

text \<open>
  \<^verbatim>\<open>_check_existing_restore_tables\<close>: the dictionary \<open>existing\<close> is an association
  list updated in place; a \<^verbatim>\<open>ClientError\<close> is skipped (logged unless it is
  \<^verbatim>\<open>ResourceNotFoundException\<close>).
\<close>

fun check_existing_loop ::
  "world \<Rightarrow> event list \<Rightarrow> (table_key \<Rightarrow> string) \<Rightarrow> (string \<times> string) list \<Rightarrow>
   table_key list \<Rightarrow> (string \<times> string) list \<times> event list" where
  "check_existing_loop w h restore_tables existing [] = (existing, [])"
| "check_existing_loop w h restore_tables existing (table_key # ks) =
     (let table_name = restore_tables table_key;
          ev = Call (DescribeTable table_name);
          existing' =
            (case describe_table w h table_name of
               Ok d \<Rightarrow> AList.update table_name (TableStatus d) existing
             | ClientError c \<Rightarrow> existing);
          (r, evs) = check_existing_loop w (h @ [ev]) restore_tables existing' ks
      in (r, ev # evs))"

definition check_existing_restore_tables ::
  "world \<Rightarrow> event list \<Rightarrow> (table_key \<Rightarrow> string) \<Rightarrow> (string \<times> string) list \<times> event list" where
  "check_existing_restore_tables w h restore_tables =
     check_existing_loop w h restore_tables [] table_keys"

text \<open>
  \<^verbatim>\<open>_find_old_restore_tables\<close>. The innermost loop stops at the first table whose
  restore pattern the name starts with.
\<close>

fun match_restore_pattern ::
  "(table_key \<Rightarrow> string) \<Rightarrow> string set \<Rightarrow> string \<Rightarrow> table_key list \<Rightarrow> string list" where
  "match_restore_pattern tbls current_table_names table_name [] = []"
| "match_restore_pattern tbls current_table_names table_name (table_key # ks) =
     (if prefix (tbls table_key @ ''-restore-'') table_name
      then (if table_name \<notin> current_table_names then [table_name] else [])
      else match_restore_pattern tbls current_table_names table_name ks)"

definition find_old_restore_tables ::
  "world \<Rightarrow> event list \<Rightarrow> restore \<Rightarrow> (table_key \<Rightarrow> string) \<Rightarrow> string list \<times> event list" where
  "find_old_restore_tables w h self current_restore_tables =
     (let current_table_names = set (map current_restore_tables table_keys)
      in case list_tables w h of
           ClientError c \<Rightarrow> ([], [Call ListTables])
         | Ok pages \<Rightarrow>
             (concat (map (\<lambda>table_name.
                 match_restore_pattern (tables self) current_table_names table_name table_keys)
               (concat pages)),
              [Call ListTables]))"

text \<open>\<^verbatim>\<open>_cleanup_existing_restore_tables\<close>: a failed deletion is logged and skipped.\<close>

fun cleanup_loop :: "world \<Rightarrow> event list \<Rightarrow> string list \<Rightarrow> event list" where
  "cleanup_loop w h [] = []"
| "cleanup_loop w h (table_name # ns) =
     (let ev = Call (DeleteTable table_name)
      in ev # cleanup_loop w (h @ [ev]) ns)"

definition cleanup_existing_restore_tables ::
  "world \<Rightarrow> event list \<Rightarrow> string list \<Rightarrow> event list" where
  "cleanup_existing_restore_tables w h table_names =
     cleanup_loop w h table_names @ (if table_names \<noteq> [] then [Sleep 10] else [])"

subsection \<open>Validation\<close>

text \<open>
  \<^verbatim>\<open>_validate_restore_point\<close>: the result and the message it logs.
  \<^verbatim>\<open>age.days\<close> and \<^verbatim>\<open>age.seconds // 3600\<close> are the floor quotients below.
\<close>

definition validate_restore_point :: "world \<Rightarrow> event list \<Rightarrow> string \<Rightarrow> bool \<times> log_msg" where
  "validate_restore_point w h restore_point_in_time =
     (case isoparse w restore_point_in_time of
        Inl e \<Rightarrow> (False, ParseFailed e)
      | Inr restore_dt \<Rightarrow>
          (let age = epoch_micros (now w h) - epoch_micros restore_dt;
               max_age = timedelta_days 35
           in if age > max_age then (False, TooOld (age div 86400000000))
              else if age < 0 then (False, InFuture)
              else (True, WithinLimit (age div 86400000000)
                            (age mod 86400000000 div 1000000 div 3600))))"

subsection \<open>Restore initiation and polling\<close>

text \<open>
  The diagnostic reads after an \<^verbatim>\<open>InvalidRestoreTimeException\<close>: their failures are
  swallowed, and the continuous-backup description is read when the table description
  carries no earliest restorable time.
\<close>

definition restore_window_diagnostics :: "world \<Rightarrow> event list \<Rightarrow> string \<Rightarrow> event list" where
  "restore_window_diagnostics w h original_table =
     (let ev = Call (DescribeTable original_table)
      in case describe_table w h original_table of
           ClientError c \<Rightarrow> [ev]
         | Ok d \<Rightarrow>
             (case EarliestRestorableDateTime d of
                None \<Rightarrow> [ev, Call (DescribeContinuousBackups original_table)]
              | Some e \<Rightarrow> [ev]))"

fun initiate_loop ::
  "world \<Rightarrow> event list \<Rightarrow> restore \<Rightarrow> (table_key \<Rightarrow> string) \<Rightarrow> int \<Rightarrow> table_key list \<Rightarrow>
   bool \<times> event list" where
  "initiate_loop w h self restore_tables restore_dt_utc [] = (True, [])"
| "initiate_loop w h self restore_tables restore_dt_utc (table_key # ks) =
     (let original_table = tables self table_key;
          restore_table = restore_tables table_key
      in if dry_run self then initiate_loop w h self restore_tables restore_dt_utc ks
         else
           (let ev = Call (RestoreTableToPointInTime original_table restore_table restore_dt_utc)
            in case restore_table_to_point_in_time w h original_table restore_table
                      restore_dt_utc of
                 Ok u \<Rightarrow>
                   (let (r, evs) =
                          initiate_loop w (h @ [ev]) self restore_tables restore_dt_utc ks
                    in (r, ev # evs))
               | ClientError c \<Rightarrow>
                   if c = ''InvalidRestoreTimeException''
                   then (False, ev # restore_window_diagnostics w (h @ [ev]) original_table)
                   else (False, [ev])))"

text \<open>
  \<^verbatim>\<open>_initiate_pitr_restores\<close>: \<open>Inl\<close> is the \<^verbatim>\<open>ValueError\<close> of \<^verbatim>\<open>isoparse\<close>, which
  the function does not catch; a \<^verbatim>\<open>ClientError\<close> makes it return \<^verbatim>\<open>False\<close>.
\<close>

definition initiate_pitr_restores ::
  "world \<Rightarrow> event list \<Rightarrow> restore \<Rightarrow> string \<Rightarrow> (string + bool) \<times> event list" where
  "initiate_pitr_restores w h self restore_point_in_time =
     (let restore_tables = get_restore_table_names self (now w h)
      in case isoparse w restore_point_in_time of
           Inl e \<Rightarrow> (Inl e, [])
         | Inr restore_dt \<Rightarrow>
             (let (r, evs) =
                    initiate_loop w h self restore_tables (epoch_micros restore_dt) table_keys
              in (Inr r, evs)))"

text \<open>
  One round of \<^verbatim>\<open>_poll_restore_completion\<close> over the restore tables: \<open>None\<close> when a
  \<^verbatim>\<open>ClientError\<close> other than \<^verbatim>\<open>ResourceNotFoundException\<close> is raised again.
\<close>

fun poll_tables ::
  "world \<Rightarrow> event list \<Rightarrow> restore \<Rightarrow> (table_key \<Rightarrow> string) \<Rightarrow> bool \<Rightarrow> table_key list \<Rightarrow>
   bool option \<times> event list" where
  "poll_tables w h self restore_tables all_active [] = (Some all_active, [])"
| "poll_tables w h self restore_tables all_active (table_key # ks) =
     (let restore_table = restore_tables table_key
      in if dry_run self then poll_tables w h self restore_tables all_active ks
         else
           (let ev = Call (DescribeTable restore_table)
            in case describe_table w h restore_table of
                 Ok d \<Rightarrow>
                   (let (r, evs) =
                          poll_tables w (h @ [ev]) self restore_tables
                            (if TableStatus d \<noteq> ''ACTIVE'' then False else all_active) ks
                    in (r, ev # evs))
               | ClientError c \<Rightarrow>
                   if c = ''ResourceNotFoundException''
                   then (let (r, evs) = poll_tables w (h @ [ev]) self restore_tables False ks
                         in (r, ev # evs))
                   else (None, [ev])))"

text \<open>
  The polling loop. The clock is counted in seconds since \<^verbatim>\<open>start_time\<close> and advances
  by the ten seconds slept after a round that found a table not ready.
\<close>

function poll_loop ::
  "world \<Rightarrow> restore \<Rightarrow> (table_key \<Rightarrow> string) \<Rightarrow> event list \<Rightarrow> int \<Rightarrow> bool \<times> event list" where
  "poll_loop w self restore_tables h elapsed =
     (if elapsed < timeout_minutes self * 60
      then (case poll_tables w h self restore_tables True table_keys of
              (None, evs) \<Rightarrow> (False, evs)
            | (Some all_active, evs) \<Rightarrow>
                if all_active then (True, evs)
                else (let (r, evs') =
                            poll_loop w self restore_tables (h @ evs @ [Sleep 10]) (elapsed + 10)
                      in (r, evs @ Sleep 10 # evs')))
      else (False, []))"
  by pat_completeness auto
termination
  by (relation "measure (\<lambda>(w, self, restore_tables, h, elapsed).
         nat (timeout_minutes self * 60 - elapsed))") auto

declare poll_loop.simps [simp del]

definition poll_restore_completion ::
  "world \<Rightarrow> event list \<Rightarrow> restore \<Rightarrow> (table_key \<Rightarrow> string) \<Rightarrow> bool \<times> event list" where
  "poll_restore_completion w h self restore_tables = poll_loop w self restore_tables h 0"

subsection \<open>Item counts\<close>

definition count_outcome :: "table_key \<Rightarrow> nat \<Rightarrow> nat \<Rightarrow> log_msg" where
  "count_outcome table_key original_count restore_count =
     (if restore_count > original_count
      then RestoreMore table_key original_count restore_count
      else if restore_count < original_count
      then RestoreFewer table_key original_count restore_count
      else CountsMatch table_key original_count restore_count)"

text \<open>
  \<^verbatim>\<open>_verify_item_counts\<close> with \<^verbatim>\<open>_count_items\<close>: a failed count raises, and the
  handler of the function returns \<^verbatim>\<open>False\<close>.
\<close>

fun verify_loop ::
  "world \<Rightarrow> event list \<Rightarrow> restore \<Rightarrow> (table_key \<Rightarrow> string) \<Rightarrow> table_key list \<Rightarrow>
   bool \<times> event list" where
  "verify_loop w h self restore_tables [] = (True, [])"
| "verify_loop w h self restore_tables (table_key # ks) =
     (let original_table = tables self table_key;
          restore_table = restore_tables table_key
      in if dry_run self then verify_loop w h self restore_tables ks
         else
           (let ev1 = Call (ScanCount original_table)
            in case scan_count w h original_table of
                 ClientError c \<Rightarrow> (False, [ev1])
               | Ok original_count \<Rightarrow>
                   (let ev2 = Call (ScanCount restore_table)
                    in case scan_count w (h @ [ev1]) restore_table of
                         ClientError c \<Rightarrow> (False, [ev1, ev2])
                       | Ok restore_count \<Rightarrow>
                           (let lg = Log (count_outcome table_key original_count restore_count);
                                (r, evs) =
                                  verify_loop w (h @ [ev1, ev2, lg]) self restore_tables ks
                            in (r, ev1 # ev2 # lg # evs)))))"

definition verify_item_counts ::
  "world \<Rightarrow> event list \<Rightarrow> restore \<Rightarrow> (table_key \<Rightarrow> string) \<Rightarrow> bool \<times> event list" where
  "verify_item_counts w h self restore_tables = verify_loop w h self restore_tables table_keys"

subsection \<open>Swap\<close>

text \<open>
  \<^verbatim>\<open>range(0, len(items), batch_size)\<close> and the slices \<^verbatim>\<open>items[i:i + batch_size]\<close>.
\<close>

definition batch_size :: nat where
  "batch_size = 25"

definition batch_offsets :: "nat \<Rightarrow> nat list" where
  "batch_offsets n = map (\<lambda>j. j * batch_size) [0 ..< (n + batch_size - 1) div batch_size]"

definition batches :: "'a list \<Rightarrow> 'a list list" where
  "batches items = map (\<lambda>i. take batch_size (drop i items)) (batch_offsets (length items))"

text \<open>
  The key of an item: \<^verbatim>\<open>{key_name: item[key_name] for key_name in key_names}\<close>;
  \<open>None\<close> is the \<^verbatim>\<open>KeyError\<close> of a missing attribute.
\<close>

definition item_key :: "string list \<Rightarrow> item \<Rightarrow> item option" where
  "item_key key_names item =
     those (map (\<lambda>key_name. map_option (Pair key_name) (map_of item key_name)) key_names)"

text \<open>
  The deletion batches of one scanned page in \<^verbatim>\<open>_clear_table\<close>; \<open>False\<close> when an
  exception leaves the function.
\<close>

fun delete_page ::
  "world \<Rightarrow> event list \<Rightarrow> string \<Rightarrow> string list \<Rightarrow> item list list \<Rightarrow> bool \<times> event list" where
  "delete_page w h table_name key_names [] = (True, [])"
| "delete_page w h table_name key_names (batch # bs) =
     (case those (map (item_key key_names) batch) of
        None \<Rightarrow> (False, [])
      | Some keys \<Rightarrow>
          (let delete_requests = map DeleteRequest keys
           in if delete_requests = [] then delete_page w h table_name key_names bs
              else
                (let ev = Call (BatchWriteItem table_name delete_requests)
                 in case batch_write_item w h table_name delete_requests of
                      ClientError c \<Rightarrow> (False, [ev])
                    | Ok u \<Rightarrow>
                        (let (r, evs) = delete_page w (h @ [ev]) table_name key_names bs
                         in (r, ev # evs)))))"

text \<open>
  The first scan and the \<^verbatim>\<open>while 'LastEvaluatedKey' in scan_response\<close> loop of
  \<^verbatim>\<open>_clear_table\<close>, along the answers of the provider.
\<close>

fun clear_stream ::
  "world \<Rightarrow> event list \<Rightarrow> string \<Rightarrow> string list \<Rightarrow> item option \<Rightarrow> scan_stream \<Rightarrow>
   bool \<times> event list" where
  "clear_stream w h table_name key_names start (ScanFailed c) =
     (False, [Call (Scan table_name start)])"
| "clear_stream w h table_name key_names start (LastPage items) =
     (let ev = Call (Scan table_name start);
          (r, evs) = delete_page w (h @ [ev]) table_name key_names (batches items)
      in (r, ev # evs))"
| "clear_stream w h table_name key_names start (MorePages items last_evaluated_key rest) =
     (let ev = Call (Scan table_name start);
          (r, evs) = delete_page w (h @ [ev]) table_name key_names (batches items)
      in if \<not> r then (False, ev # evs)
         else
           (let (r', evs') =
                  clear_stream w (h @ ev # evs) table_name key_names
                    (Some last_evaluated_key) rest
            in (r', ev # evs @ evs')))"

definition clear_table :: "world \<Rightarrow> event list \<Rightarrow> string \<Rightarrow> bool \<times> event list" where
  "clear_table w h table_name =
     (let ev = Call (DescribeTable table_name)
      in case describe_table w h table_name of
           ClientError c \<Rightarrow> (False, [ev])
         | Ok d \<Rightarrow>
             (let key_names = KeySchema d;
                  (r, evs) =
                    clear_stream w (h @ [ev]) table_name key_names None
                      (scan w (h @ [ev]) table_name)
              in (r, ev # evs)))"

text \<open>
  The write batches of one scanned page in \<^verbatim>\<open>_copy_table_data\<close>, with the running
  \<^verbatim>\<open>items_written\<close>; \<open>None\<close> when an exception leaves the function.
\<close>

fun put_page ::
  "world \<Rightarrow> event list \<Rightarrow> string \<Rightarrow> nat \<Rightarrow> item list list \<Rightarrow> nat option \<times> event list" where
  "put_page w h target_table items_written [] = (Some items_written, [])"
| "put_page w h target_table items_written (batch # bs) =
     (let put_requests = map PutRequest batch
      in if put_requests = [] then put_page w h target_table items_written bs
         else
           (let ev = Call (BatchWriteItem target_table put_requests)
            in case batch_write_item w h target_table put_requests of
                 ClientError c \<Rightarrow> (None, [ev])
               | Ok u \<Rightarrow>
                   (let (r, evs) =
                          put_page w (h @ [ev]) target_table
                            (items_written + length put_requests) bs
                    in (r, ev # evs))))"

fun copy_stream ::
  "world \<Rightarrow> event list \<Rightarrow> string \<Rightarrow> string \<Rightarrow> nat \<Rightarrow> item option \<Rightarrow> scan_stream \<Rightarrow>
   nat option \<times> event list" where
  "copy_stream w h source_table target_table items_written start (ScanFailed c) =
     (None, [Call (Scan source_table start)])"
| "copy_stream w h source_table target_table items_written start (LastPage items) =
     (let ev = Call (Scan source_table start);
          (r, evs) = put_page w (h @ [ev]) target_table items_written (batches items)
      in (r, ev # evs))"
| "copy_stream w h source_table target_table items_written start
       (MorePages items last_evaluated_key rest) =
     (let ev = Call (Scan source_table start);
          (r, evs) = put_page w (h @ [ev]) target_table items_written (batches items)
      in case r of
           None \<Rightarrow> (None, ev # evs)
         | Some written \<Rightarrow>
             (let (r', evs') =
                    copy_stream w (h @ ev # evs) source_table target_table written
                      (Some last_evaluated_key) rest
              in (r', ev # evs @ evs')))"

definition copy_table_data ::
  "world \<Rightarrow> event list \<Rightarrow> string \<Rightarrow> string \<Rightarrow> nat option \<times> event list" where
  "copy_table_data w h source_table target_table =
     copy_stream w h source_table target_table 0 None (scan w h source_table)"

definition swap_table_data ::
  "world \<Rightarrow> event list \<Rightarrow> string \<Rightarrow> string \<Rightarrow> bool \<times> event list" where
  "swap_table_data w h original_table restore_table =
     (let (cleared, evs) = clear_table w h original_table
      in if \<not> cleared then (False, evs)
         else
           (let (items_written, evs') = copy_table_data w (h @ evs) restore_table original_table
            in (items_written \<noteq> None, evs @ evs')))"

fun swap_loop ::
  "world \<Rightarrow> event list \<Rightarrow> restore \<Rightarrow> (table_key \<Rightarrow> string) \<Rightarrow> table_key list \<Rightarrow>
   bool \<times> event list" where
  "swap_loop w h self restore_tables [] = (True, [])"
| "swap_loop w h self restore_tables (table_key # ks) =
     (let original_table = tables self table_key;
          restore_table = restore_tables table_key
      in if dry_run self then swap_loop w h self restore_tables ks
         else
           (let (swapped, evs) = swap_table_data w h original_table restore_table
            in if \<not> swapped then (False, evs)
               else (let (r, evs') = swap_loop w (h @ evs) self restore_tables ks
                     in (r, evs @ evs'))))"

definition swap_data ::
  "world \<Rightarrow> event list \<Rightarrow> restore \<Rightarrow> (table_key \<Rightarrow> string) \<Rightarrow> bool \<times> event list" where
  "swap_data w h self restore_tables = swap_loop w h self restore_tables table_keys"

subsection \<open>Cleanup\<close>

fun delete_loop ::
  "world \<Rightarrow> event list \<Rightarrow> restore \<Rightarrow> (table_key \<Rightarrow> string) \<Rightarrow> bool \<Rightarrow> table_key list \<Rightarrow>
   bool \<times> event list" where
  "delete_loop w h self restore_tables all_deleted [] = (all_deleted, [])"
| "delete_loop w h self restore_tables all_deleted (table_key # ks) =
     (let restore_table = restore_tables table_key
      in if dry_run self then delete_loop w h self restore_tables all_deleted ks
         else
           (let ev = Call (DeleteTable restore_table);
                (r, evs) =
                  delete_loop w (h @ [ev]) self restore_tables
                    (case delete_table w h restore_table of
                       Ok u \<Rightarrow> all_deleted
                     | ClientError c \<Rightarrow> False) ks
            in (r, ev # evs)))"

definition delete_restore_tables ::
  "world \<Rightarrow> event list \<Rightarrow> restore \<Rightarrow> (table_key \<Rightarrow> string) \<Rightarrow> bool \<times> event list" where
  "delete_restore_tables w h self restore_tables =
     delete_loop w h self restore_tables True table_keys"

section \<open>The run\<close>

text \<open>
  Lines 160 to 187 of \<^verbatim>\<open>run\<close>: the search for restore tables of this restore point,
  and, when there is none, the search for and the deletion of restore tables of other
  restore points. The result is \<^verbatim>\<open>skip_restore\<close>.
\<close>

definition reuse_or_cleanup ::
  "world \<Rightarrow> event list \<Rightarrow> restore \<Rightarrow> (table_key \<Rightarrow> string) \<Rightarrow> bool \<times> event list" where
  "reuse_or_cleanup w h self restore_tables =
     (let (existing_restore_tables, evs1) = check_existing_restore_tables w h restore_tables
      in if existing_restore_tables \<noteq> [] then (True, evs1)
         else
           (let (old_restore_tables, evl) =
                  find_old_restore_tables w (h @ evs1) self restore_tables
            in (False,
                evs1 @ evl @
                (if old_restore_tables \<noteq> [] \<and> \<not> dry_run self
                 then cleanup_existing_restore_tables w (h @ evs1 @ evl) old_restore_tables
                 else []))))"

text \<open>
  \<^verbatim>\<open>run\<close> up to the polling (lines 145 to 202): \<open>Inl\<close> is the trace of a run that
  ends there, always with the result \<^verbatim>\<open>False\<close>; \<open>Inr\<close> carries \<^verbatim>\<open>self\<close>, the restore
  table names and the events so far of a run that goes on to poll. The lock is released
  when the \<^verbatim>\<open>with\<close> block is left; an exception leaves it before the handler of
  \<^verbatim>\<open>run\<close> writes the status.
\<close>

definition before_poll ::
  "world \<Rightarrow> restore \<Rightarrow> string \<Rightarrow>
   event list + (restore \<times> (table_key \<Rightarrow> string) \<times> event list)" where
  "before_poll w self0 restore_point_in_time =
     (let h0 = [update_status ''INITIALIZING'' None]
      in case isoparse w restore_point_in_time of
           Inl e \<Rightarrow> Inl (h0 @ [update_status ''FAILED'' (Some e)])
         | Inr restore_dt \<Rightarrow>
             (let self = set_restore_point self0 restore_dt;
                  restore_tables = get_restore_table_names self (now w h0);
                  (skip_restore, evs) = reuse_or_cleanup w h0 self restore_tables;
                  h2 = h0 @ evs;
                  (valid, msg) = validate_restore_point w h2 restore_point_in_time;
                  h3 = h2 @ [Log msg]
              in if \<not> valid
                 then Inl (h3 @ [update_status ''FAILED'' (Some ''Invalid restore point'')])
                 else if \<not> lock_acquire w h3
                 then Inl (h3 @ [LockFailed,
                        update_status ''FAILED'' (Some ''Could not acquire restore lock'')])
                 else
                   (let h4 = h3 @ [LockAcquired]
                    in if skip_restore then Inr (self, restore_tables, h4)
                       else
                         (case initiate_pitr_restores w h4 self restore_point_in_time of
                            (Inl e, ievs) \<Rightarrow>
                              Inl (h4 @ ievs @
                                [LockReleased, update_status ''FAILED'' (Some e)])
                          | (Inr initiated, ievs) \<Rightarrow>
                              if initiated then Inr (self, restore_tables, h4 @ ievs)
                              else Inl (h4 @ ievs @
                                     [update_status ''FAILED''
                                        (Some ''Failed to initiate PITR restores''),
                                      LockReleased])))))"

text \<open>\<^verbatim>\<open>run\<close> from the polling to the end of the \<^verbatim>\<open>with\<close> block (lines 204 to 224).\<close>

definition from_poll ::
  "world \<Rightarrow> event list \<Rightarrow> restore \<Rightarrow> (table_key \<Rightarrow> string) \<Rightarrow> bool \<times> event list" where
  "from_poll w h self restore_tables =
     (let (polled, evs1) = poll_restore_completion w h self restore_tables
      in if \<not> polled
         then (False, evs1 @
                 [update_status ''FAILED'' (Some ''Restore operation timed out'')])
         else
           (let (verified, evs2) = verify_item_counts w (h @ evs1) self restore_tables
            in if \<not> verified
               then (False, evs1 @ evs2 @
                       [update_status ''FAILED'' (Some ''Item count mismatch'')])
               else
                 (let (swapped, evs3) = swap_data w (h @ evs1 @ evs2) self restore_tables
                  in if \<not> swapped
                     then (False, evs1 @ evs2 @ evs3 @
                             [update_status ''FAILED'' (Some ''Data swap failed'')])
                     else
                       (let (deleted, evs4) =
                              delete_restore_tables w (h @ evs1 @ evs2 @ evs3) self
                                restore_tables
                        in (True, evs1 @ evs2 @ evs3 @ evs4)))))"

text \<open>\<^verbatim>\<open>run\<close>: the result and the trace of the whole run.\<close>

definition run :: "world \<Rightarrow> restore \<Rightarrow> string \<Rightarrow> bool \<times> event list" where
  "run w self restore_point_in_time =
     (case before_poll w self restore_point_in_time of
        Inl tr \<Rightarrow> (False, tr)
      | Inr (self', restore_tables, h) \<Rightarrow>
          (let (ok, evs) = from_poll w h self' restore_tables
           in (ok, h @ evs @ LockReleased #
                 (if ok then [update_status ''COMPLETED'' None] else []))))"

text \<open>\<^verbatim>\<open>main\<close>: the exit code of the process.\<close>

definition exit_code :: "world \<Rightarrow> restore \<Rightarrow> string \<Rightarrow> nat" where
  "exit_code w self restore_point_in_time =
     (if fst (run w self restore_point_in_time) then 0 else 1)"

section \<open>Vocabulary of the properties and example inputs\<close>

text \<open>The calendar fields of a restore point down to the second.\<close>

definition civil_seconds :: "datetime \<Rightarrow> nat \<times> nat \<times> nat \<times> nat \<times> nat \<times> nat" where
  "civil_seconds dt =
     (dt_year dt, dt_month dt, dt_day dt, dt_hour dt, dt_minute dt, dt_second dt)"

text \<open>
  The UTC offset at which a \<^verbatim>\<open>datetime\<close> is written (\<^verbatim>\<open>dt.utcoffset()\<close>, in
  microseconds): the distance between its calendar fields, read as a point of the
  proleptic Gregorian calendar, and its position on the UTC time line.
  \<open>days_from_civil\<close> counts the days from 1970-01-01 to a calendar date.
\<close>

definition days_from_civil :: "nat \<Rightarrow> nat \<Rightarrow> nat \<Rightarrow> int" where
  "days_from_civil y m d =
     (let y' = (if m \<le> 2 then int y - 1 else int y);
          era = y' div 400;
          yoe = y' - era * 400;
          doy = (153 * (if 2 < m then int m - 3 else int m + 9) + 2) div 5 + int d - 1;
          doe = yoe * 365 + yoe div 4 - yoe div 100 + doy
      in era * 146097 + doe - 719468)"

definition civil_micros :: "datetime \<Rightarrow> int" where
  "civil_micros dt =
     (((days_from_civil (dt_year dt) (dt_month dt) (dt_day dt) * 24 + int (dt_hour dt)) * 60 +
        int (dt_minute dt)) * 60 + int (dt_second dt)) * 1000000 + int (dt_microsecond dt)"

definition utcoffset :: "datetime \<Rightarrow> int" where
  "utcoffset dt = civil_micros dt - epoch_micros dt"

text \<open>
  Three restore points: 2025-12-19T18:00:00 (Europe/Berlin), the same half a second
  later, and one second later; and the point 2025-12-19T18:00:00Z, written with the
  same calendar fields one hour after the first.
\<close>

definition point_z :: datetime where
  "point_z = \<lparr> dt_year = 2025, dt_month = 12, dt_day = 19, dt_hour = 18, dt_minute = 0,
               dt_second = 0, dt_microsecond = 0, epoch_micros = 1766167200000000 \<rparr>"

definition point_a :: datetime where
  "point_a = \<lparr> dt_year = 2025, dt_month = 12, dt_day = 19, dt_hour = 18, dt_minute = 0,
               dt_second = 0, dt_microsecond = 0, epoch_micros = 1766163600000000 \<rparr>"

definition point_b :: datetime where
  "point_b = \<lparr> dt_year = 2025, dt_month = 12, dt_day = 19, dt_hour = 18, dt_minute = 0,
               dt_second = 0, dt_microsecond = 500000, epoch_micros = 1766163600500000 \<rparr>"

definition point_c :: datetime where
  "point_c = \<lparr> dt_year = 2025, dt_month = 12, dt_day = 19, dt_hour = 18, dt_minute = 0,
               dt_second = 1, dt_microsecond = 0, epoch_micros = 1766163601000000 \<rparr>"

text \<open>Kinds of events.\<close>

fun is_restore_call :: "event \<Rightarrow> bool" where
  "is_restore_call (Call (RestoreTableToPointInTime s t i)) = True"
| "is_restore_call e = False"

fun is_data_call :: "event \<Rightarrow> bool" where
  "is_data_call (Call (ScanCount t)) = True"
| "is_data_call (Call (Scan t c)) = True"
| "is_data_call (Call (BatchWriteItem t rs)) = True"
| "is_data_call e = False"

fun is_mutating :: "event \<Rightarrow> bool" where
  "is_mutating (Call (DeleteTable t)) = True"
| "is_mutating (Call (RestoreTableToPointInTime s t i)) = True"
| "is_mutating (Call (BatchWriteItem t rs)) = True"
| "is_mutating e = False"

fun is_provider_call :: "event \<Rightarrow> bool" where
  "is_provider_call (Call c) = True"
| "is_provider_call e = False"

fun is_validation :: "event \<Rightarrow> bool" where
  "is_validation (Log (ParseFailed e)) = True"
| "is_validation (Log (TooOld d)) = True"
| "is_validation (Log InFuture) = True"
| "is_validation (Log (WithinLimit d h)) = True"
| "is_validation e = False"

text \<open>The status records written by a run, in order.\<close>

fun statuses :: "event list \<Rightarrow> (string \<times> string option) list" where
  "statuses [] = []"
| "statuses (StatusUpdate s m # es) = (s, m) # statuses es"
| "statuses (e # es) = statuses es"

text \<open>
  An account in which no restore table of the requested restore point exists, and a
  restore table of an earlier restore point is left over. The wall clock stands two
  days after \<open>point_a\<close>.
\<close>

definition now_point :: datetime where
  "now_point = \<lparr> dt_year = 2025, dt_month = 12, dt_day = 21, dt_hour = 18, dt_minute = 0,
                 dt_second = 0, dt_microsecond = 0, epoch_micros = 1766336400000000 \<rparr>"

definition point_old :: datetime where
  "point_old = \<lparr> dt_year = 2025, dt_month = 11, dt_day = 1, dt_hour = 12, dt_minute = 0,
                 dt_second = 0, dt_microsecond = 0, epoch_micros = 1761994800000000 \<rparr>"

definition point_future :: datetime where
  "point_future = \<lparr> dt_year = 2026, dt_month = 1, dt_day = 1, dt_hour = 0, dt_minute = 0,
                    dt_second = 0, dt_microsecond = 0, epoch_micros = 1767222000000000 \<rparr>"

definition example_isoparse :: "string \<Rightarrow> string + datetime" where
  "example_isoparse s =
     (if s = ''2025-12-19T18:00:00'' then Inr point_a
      else if s = ''2025-11-01T12:00:00'' then Inr point_old
      else if s = ''2026-01-01T00:00:00'' then Inr point_future
      else Inl ''Invalid isoformat string'')"

definition stale_account :: world where
  "stale_account =
     \<lparr> isoparse = example_isoparse,
       now = (\<lambda>h. now_point),
       lock_acquire = (\<lambda>h. True),
       describe_table = (\<lambda>h n. ClientError ''ResourceNotFoundException''),
       list_tables = (\<lambda>h. Ok [[''quote-lambda-tf-quotes-dev'',
                                ''quote-lambda-tf-quotes-dev-restore-20251101120000'',
                                ''quote-lambda-tf-quotes-dev-restore-20251219180000''],
                               [''quote-lambda-tf-user-likes-dev'', ''sessions'']]),
       delete_table = (\<lambda>h n. Ok ()),
       restore_table_to_point_in_time = (\<lambda>h s t i. Ok ()),
       scan_count = (\<lambda>h n. Ok 0),
       scan = (\<lambda>h n. LastPage []),
       batch_write_item = (\<lambda>h t rs. Ok ()) \<rparr>"

text \<open>The same account while another run holds the lock.\<close>

definition locked_account :: world where
  "locked_account = stale_account\<lparr>lock_acquire := (\<lambda>h. False)\<rparr>"

text \<open>An account in which every table exists and is \<^verbatim>\<open>ACTIVE\<close>.\<close>

definition active_account :: world where
  "active_account =
     stale_account\<lparr>describe_table :=
       (\<lambda>h n. Ok \<lparr> TableStatus = ''ACTIVE'', KeySchema = [''id''],
                    EarliestRestorableDateTime = None \<rparr>)\<rparr>"

text \<open>
  \<^verbatim>\<open>self\<close> of a run on the dev environment after \<open>point_a\<close> has been parsed, and the
  restore table names of that run.
\<close>

definition example_self :: restore where
  "example_self = set_restore_point (init ''dev'' 30 False) point_a"

definition example_names :: "table_key \<Rightarrow> string" where
  "example_names = get_restore_table_names example_self now_point"

text \<open>The events of a run before its validation message.\<close>

definition before_validation :: "event list \<Rightarrow> event list" where
  "before_validation tr = takeWhile (\<lambda>e. \<not> is_validation e) tr"

text \<open>
  The events of a run whose restore point parses to \<open>restore_dt\<close>, up to the validation.
\<close>

definition preflight :: "world \<Rightarrow> restore \<Rightarrow> datetime \<Rightarrow> event list" where
  "preflight w self0 restore_dt =
     (let h0 = [update_status ''INITIALIZING'' None];
          self = set_restore_point self0 restore_dt
      in h0 @ snd (reuse_or_cleanup w h0 self (get_restore_table_names self (now w h0))))"

text \<open>
  The rows that a chain of scan answers returns, the cursors it hands out, and the
  write requests and the scan cursors of a trace, in order.
\<close>

fun stream_items :: "scan_stream \<Rightarrow> item list" where
  "stream_items (ScanFailed c) = []"
| "stream_items (LastPage items) = items"
| "stream_items (MorePages items k rest) = items @ stream_items rest"

fun stream_cursors :: "scan_stream \<Rightarrow> item list" where
  "stream_cursors (ScanFailed c) = []"
| "stream_cursors (LastPage items) = []"
| "stream_cursors (MorePages items k rest) = k # stream_cursors rest"

fun written :: "event list \<Rightarrow> write_request list" where
  "written [] = []"
| "written (Call (BatchWriteItem t rs) # es) = rs @ written es"
| "written (e # es) = written es"

fun scan_starts :: "event list \<Rightarrow> item option list" where
  "scan_starts [] = []"
| "scan_starts (Call (Scan t c) # es) = c # scan_starts es"
| "scan_starts (e # es) = scan_starts es"

text \<open>
  An account in which the restore tables are ready and every count differs: the count
  of a table is the length of its name, so each restore table counts more items than
  its original.
\<close>

definition mismatch_account :: world where
  "mismatch_account = active_account\<lparr>scan_count := (\<lambda>h n. Ok (length n))\<rparr>"

text \<open>
  An account whose quotes table is scanned in two pages, of thirty rows and of one row.
\<close>

definition thirty_rows :: "item list" where
  "thirty_rows = map (\<lambda>i. [(''id'', pad2 i)]) [0 ..< 30]"

definition paged_account :: world where
  "paged_account =
     active_account\<lparr>scan :=
       (\<lambda>h n. MorePages thirty_rows [(''id'', ''29'')] (LastPage [[(''id'', ''30'')]]))\<rparr>"

text \<open>
  The restore table names of a run whose restore point parses to \<open>restore_dt\<close>, and
  the events of that run up to and with its validation message.
\<close>

definition run_names :: "world \<Rightarrow> restore \<Rightarrow> datetime \<Rightarrow> table_key \<Rightarrow> string" where
  "run_names w self0 restore_dt =
     get_restore_table_names (set_restore_point self0 restore_dt)
       (now w [update_status ''INITIALIZING'' None])"

definition validated :: "world \<Rightarrow> restore \<Rightarrow> string \<Rightarrow> datetime \<Rightarrow> event list" where
  "validated w self0 restore_point_in_time restore_dt =
     preflight w self0 restore_dt @
       [Log (snd (validate_restore_point w (preflight w self0 restore_dt)
                    restore_point_in_time))]"

section \<open>Properties\<close>

subsection \<open>The timestamp token and the restore table names\<close>

lemma digit_eq_iff: "digit a = digit b \<longleftrightarrow> a mod 10 = b mod 10"
proof -
  have d: "distinct ''0123456789''" by simp
  have l: "length ''0123456789'' = 10" by simp
  show ?thesis
    unfolding digit_def
    by (rule nth_eq_iff_index_eq [OF d]) (simp_all add: l)
qed

lemma pad2_inject:
  assumes "n < 100" "m < 100" "pad2 n = pad2 m"
  shows "n = m"
proof -
  from assms(3) have a: "n div 10 mod 10 = m div 10 mod 10" and b: "n mod 10 = m mod 10"
    by (simp_all add: pad2_def digit_eq_iff)
  from assms(1,2) have "n div 10 < 10" "m div 10 < 10" by simp_all
  with a have "n div 10 = m div 10" by simp
  with b show ?thesis by (metis div_mult_mod_eq)
qed

lemma pad4_inject:
  assumes "n < 10000" "m < 10000" "pad4 n = pad4 m"
  shows "n = m"
proof -
  from assms(3) have a: "n div 1000 mod 10 = m div 1000 mod 10"
    and b: "n div 100 mod 10 = m div 100 mod 10"
    and c: "n div 10 mod 10 = m div 10 mod 10" and d: "n mod 10 = m mod 10"
    by (simp_all add: pad4_def digit_eq_iff)
  from assms(1,2) have "n div 1000 < 10" "m div 1000 < 10" by simp_all
  with a have a': "n div 1000 = m div 1000" by simp
  have e: "k div 100 = 10 * (k div 1000) + k div 100 mod 10" for k :: nat
  proof -
    have "k div 1000 = k div 100 div 10" using div_mult2_eq [of k 100 10] by simp
    then show ?thesis by simp
  qed
  have f: "k div 10 = 10 * (k div 100) + k div 10 mod 10" for k :: nat
  proof -
    have "k div 100 = k div 10 div 10" using div_mult2_eq [of k 10 10] by simp
    then show ?thesis by simp
  qed
  have g: "k = 10 * (k div 10) + k mod 10" for k :: nat
    by simp
  have "n div 100 = m div 100" using e [of n] e [of m] a' b by simp
  then have "n div 10 = m div 10" using f [of n] f [of m] c by simp
  then show ?thesis using g [of n] g [of m] d by simp
qed

lemma length_pad2: "length (pad2 n) = 2"
  by (simp add: pad2_def)

lemma length_pad4: "length (pad4 n) = 4"
  by (simp add: pad4_def)

lemma length_year_digits:
  "length (year_digits n) =
     (if n < 10 then 1 else if n < 100 then 2 else if n < 1000 then 3 else 4)"
  by (simp add: year_digits_def length_pad2 length_pad4)

lemma year_digits_inject:
  assumes "n < 10000" "m < 10000" "year_digits n = year_digits m"
  shows "n = m"
proof -
  from assms(3) have "length (year_digits n) = length (year_digits m)" by simp
  then consider "n < 10" "m < 10" | "10 \<le> n" "n < 100" "10 \<le> m" "m < 100"
    | "100 \<le> n" "n < 1000" "100 \<le> m" "m < 1000" | "1000 \<le> n" "1000 \<le> m"
    by (simp add: length_year_digits split: if_splits)
  then show ?thesis
  proof cases
    case 1
    with assms(3) show ?thesis by (simp add: year_digits_def digit_eq_iff)
  next
    case 2
    with assms(3) have "pad2 n = pad2 m" by (simp add: year_digits_def)
    with 2 show ?thesis by (simp add: pad2_inject)
  next
    case 3
    with assms(3) have a: "n div 100 mod 10 = m div 100 mod 10"
      and b: "n div 10 mod 10 = m div 10 mod 10" and c: "n mod 10 = m mod 10"
      by (simp_all add: year_digits_def pad2_def digit_eq_iff)
    from 3 have "n div 100 < 10" "m div 100 < 10" by simp_all
    with a have a': "n div 100 = m div 100" by simp
    have f: "k div 10 = 10 * (k div 100) + k div 10 mod 10" for k :: nat
    proof -
      have "k div 100 = k div 10 div 10" using div_mult2_eq [of k 10 10] by simp
      then show ?thesis by simp
    qed
    have g: "k = 10 * (k div 10) + k mod 10" for k :: nat
      by simp
    have "n div 10 = m div 10" using f [of n] f [of m] a' b by simp
    then show ?thesis using g [of n] g [of m] c by simp
  next
    case 4
    with assms(3) have "pad4 n = pad4 m" by (simp add: year_digits_def)
    with assms(1,2) show ?thesis by (simp add: pad4_inject)
  qed
qed

lemma length_strftime: "length (strftime dt) = length (year_digits (dt_year dt)) + 10"
  by (simp add: strftime_def length_pad2)

lemma strftime_inject:
  assumes "valid_datetime p" "valid_datetime q" "strftime p = strftime q"
  shows "civil_seconds p = civil_seconds q"
proof -
  from assms(3) have "length (strftime p) = length (strftime q)" by simp
  then have "length (year_digits (dt_year p)) = length (year_digits (dt_year q))"
    by (simp add: length_strftime)
  with assms(3) have
    "year_digits (dt_year p) = year_digits (dt_year q)"
    "pad2 (dt_month p) = pad2 (dt_month q)"
    "pad2 (dt_day p) = pad2 (dt_day q)" "pad2 (dt_hour p) = pad2 (dt_hour q)"
    "pad2 (dt_minute p) = pad2 (dt_minute q)" "pad2 (dt_second p) = pad2 (dt_second q)"
    by (simp_all add: strftime_def length_pad2)
  moreover from assms(1,2) have
    "dt_year p < 10000" "dt_year q < 10000" "dt_month p < 100" "dt_month q < 100"
    "dt_day p < 100" "dt_day q < 100" "dt_hour p < 100" "dt_hour q < 100"
    "dt_minute p < 100" "dt_minute q < 100" "dt_second p < 100" "dt_second q < 100"
    by (simp_all add: valid_datetime_def)
  ultimately show ?thesis
    unfolding civil_seconds_def
    by (simp add: pad2_inject year_digits_inject)
qed

lemma restore_name_of_point:
  "get_restore_table_names (set_restore_point self d) n key =
     tables self key @ ''-restore-'' @ strftime d"
proof -
  have "strftime d \<noteq> []" using length_strftime [of d] by auto
  then show ?thesis by (simp add: get_restore_table_names_def set_restore_point_def)
qed

text \<open>
  C1, as stated, fails: two restore points that differ (here by half a second, so they
  are different instants) get the same restore table name, because the token is printed
  with a resolution of one second.
\<close>

theorem restore_table_name_same_token:
  "point_a \<noteq> point_b \<and> epoch_micros point_a \<noteq> epoch_micros point_b \<and>
   get_restore_table_names (set_restore_point (init ''dev'' 30 False) point_a) point_a quotes =
   get_restore_table_names (set_restore_point (init ''dev'' 30 False) point_b) point_a quotes"
proof -
  have "strftime point_a = strftime point_b"
    by (simp add: point_a_def point_b_def strftime_def)
  moreover have "epoch_micros point_a \<noteq> epoch_micros point_b"
    by (simp add: point_a_def point_b_def)
  ultimately show ?thesis by (auto simp: restore_name_of_point)
qed

text \<open>
  Two restore points written with the same UTC offset and with the same calendar fields
  down to the second lie less than a second apart.
\<close>

lemma same_offset_same_second:
  assumes "valid_datetime p" "valid_datetime q" "utcoffset p = utcoffset q"
    and "civil_seconds p = civil_seconds q"
  shows "\<bar>epoch_micros p - epoch_micros q\<bar> < 1000000"
proof -
  from assms(4) have "civil_micros p - civil_micros q =
      int (dt_microsecond p) - int (dt_microsecond q)"
    by (simp add: civil_micros_def civil_seconds_def)
  moreover from assms(3) have "epoch_micros p - epoch_micros q =
      civil_micros p - civil_micros q"
    by (simp add: utcoffset_def)
  moreover from assms(1,2) have "dt_microsecond p < 1000000" "dt_microsecond q < 1000000"
    by (simp_all add: valid_datetime_def)
  ultimately show ?thesis by simp
qed

text \<open>
  The older variant prints the token from the wall clock: the names that two of its
  calls return one second apart differ, whatever the restore point of the run.
\<close>

lemma older_variant_names_follow_clock:
  "get_restore_table_names_older (init ''dev'' 30 False) point_a quotes =
     ''quote-lambda-tf-quotes-dev-restore-20251219180000'' \<and>
   get_restore_table_names_older (init ''dev'' 30 False) point_c quotes =
     ''quote-lambda-tf-quotes-dev-restore-20251219180001''"
  by code_simp

text \<open>
  Line 158 prints the token from the calendar fields as they are written, without the
  conversion to UTC of lines 298 and 335: 2025-12-19T18:00:00 (Europe/Berlin) and
  2025-12-19T18:00:00Z lie one hour apart and get the same restore table name.
\<close>

lemma restore_name_not_normalised:
  "utcoffset point_a = 3600000000 \<and> utcoffset point_z = 0 \<and>
   epoch_micros point_z - epoch_micros point_a = 3600000000 \<and>
   get_restore_table_names (set_restore_point (init ''dev'' 30 False) point_a) point_a quotes =
   get_restore_table_names (set_restore_point (init ''dev'' 30 False) point_z) point_a quotes"
proof -
  have "strftime point_a = strftime point_z"
    by (simp add: point_a_def point_z_def strftime_def)
  moreover have "utcoffset point_a = 3600000000" "utcoffset point_z = 0"
    by (simp_all add: utcoffset_def civil_micros_def days_from_civil_def point_a_def
        point_z_def)
  moreover have "epoch_micros point_z - epoch_micros point_a = 3600000000"
    by (simp add: point_a_def point_z_def)
  ultimately show ?thesis by (simp add: restore_name_of_point)
qed

text \<open>
  C1, amended, for \<^verbatim>\<open>scripts/restore-dynamodb-pitr/restore_dynamodb_pitr.py\<close>: once the
  restore point of a run is parsed, the restore table name of a table does not depend
  on the wall clock read at the call, and two restore points that are written with the
  same UTC offset and lie a second or more apart get different names. (What the names
  of two restore points written with different UTC offsets are is not part of the
  statement.)
\<close>

theorem restore_table_name_deterministic:
  "get_restore_table_names (set_restore_point self p) now1 key =
     get_restore_table_names (set_restore_point self p) now2 key \<and>
   (valid_datetime p \<and> valid_datetime p' \<and> utcoffset p = utcoffset p' \<and>
    1000000 \<le> \<bar>epoch_micros p - epoch_micros p'\<bar> \<longrightarrow>
     get_restore_table_names (set_restore_point self p) now1 key \<noteq>
     get_restore_table_names (set_restore_point self p') now2 key)"
proof -
  have "get_restore_table_names (set_restore_point self p) now1 key \<noteq>
     get_restore_table_names (set_restore_point self p') now2 key"
    if v: "valid_datetime p" "valid_datetime p'" and o: "utcoffset p = utcoffset p'"
      and d: "1000000 \<le> \<bar>epoch_micros p - epoch_micros p'\<bar>"
  proof
    assume "get_restore_table_names (set_restore_point self p) now1 key =
      get_restore_table_names (set_restore_point self p') now2 key"
    then have "strftime p = strftime p'" by (simp add: restore_name_of_point)
    from strftime_inject [OF v this] have "civil_seconds p = civil_seconds p'" .
    from same_offset_same_second [OF v o this] d show False by simp
  qed
  then show ?thesis by (simp add: restore_name_of_point)
qed

theorem restore_table_name_deterministic_witness:
  "valid_datetime point_a \<and> valid_datetime point_c \<and>
   utcoffset point_a = 3600000000 \<and> utcoffset point_c = 3600000000 \<and>
   1000000 \<le> \<bar>epoch_micros point_a - epoch_micros point_c\<bar> \<and>
   get_restore_table_names (set_restore_point (init ''dev'' 30 False) point_a) point_b quotes =
     get_restore_table_names (set_restore_point (init ''dev'' 30 False) point_a) point_c quotes \<and>
   get_restore_table_names (set_restore_point (init ''dev'' 30 False) point_a) point_b quotes \<noteq>
     get_restore_table_names (set_restore_point (init ''dev'' 30 False) point_c) point_c quotes"
proof -
  have v: "valid_datetime point_a" "valid_datetime point_c"
    by (simp_all add: valid_datetime_def point_a_def point_c_def)
  have o: "utcoffset point_a = 3600000000" "utcoffset point_c = 3600000000"
    by (simp_all add: utcoffset_def civil_micros_def days_from_civil_def point_a_def
        point_c_def)
  have d: "1000000 \<le> \<bar>epoch_micros point_a - epoch_micros point_c\<bar>"
    by (simp add: point_a_def point_c_def)
  from o have e: "utcoffset point_a = utcoffset point_c" by simp
  from restore_table_name_deterministic
      [of "init ''dev'' 30 False" point_a point_b quotes point_c point_c] v e d
  have "get_restore_table_names (set_restore_point (init ''dev'' 30 False) point_a) point_b quotes =
     get_restore_table_names (set_restore_point (init ''dev'' 30 False) point_a) point_c quotes"
    and "get_restore_table_names (set_restore_point (init ''dev'' 30 False) point_a) point_b quotes \<noteq>
     get_restore_table_names (set_restore_point (init ''dev'' 30 False) point_c) point_c quotes"
    by blast+
  with v o d show ?thesis by blast
qed

subsection \<open>The search for stale restore tables\<close>

lemma match_restore_pattern_sound:
  "n \<in> set (match_restore_pattern tbls cur name ks) \<Longrightarrow>
     n = name \<and> (\<exists>k \<in> set ks. prefix (tbls k @ ''-restore-'') name) \<and> name \<notin> cur"
  by (induction ks) (auto split: if_splits)

lemma table_key_in_keys: "k \<in> set table_keys"
  by (cases k) (simp_all add: table_keys_def)

lemma find_old_restore_tables_sound:
  assumes "n \<in> set (fst (find_old_restore_tables w h self current))"
  shows "(\<exists>k. prefix (tables self k @ ''-restore-'') n) \<and> (\<forall>k. n \<noteq> current k)"
proof -
  from assms have
    n: "n \<in> set (match_restore_pattern (tables self) (set (map current table_keys)) n table_keys)"
    by (auto simp: find_old_restore_tables_def Let_def split: response.splits
        dest: match_restore_pattern_sound)
  from match_restore_pattern_sound [OF n] table_key_in_keys show ?thesis
    by (metis image_eqI list.set_map)
qed

lemma find_old_restore_tables_events:
  "snd (find_old_restore_tables w h self current) = [Call ListTables]"
  by (simp add: find_old_restore_tables_def Let_def split: response.splits)

lemma length_configure_table_names:
  "length (configure_table_names env k) \<le> 30 \<and> 22 \<le> length (configure_table_names env k) \<and>
   (env = ''dev'' \<longrightarrow> 26 \<le> length (configure_table_names env k)) \<and>
   (env \<noteq> ''dev'' \<longrightarrow> length (configure_table_names env k) \<le> 26)"
  by (cases k) (simp_all add: configure_table_names_def)

lemma restore_pattern_not_production:
  assumes "prefix (configure_table_names env k @ ''-restore-'') n"
  shows "n \<noteq> configure_table_names env k'"
proof
  assume "n = configure_table_names env k'"
  with assms have "length (configure_table_names env k @ ''-restore-'')
      \<le> length (configure_table_names env k')"
    by (auto dest: prefix_length_le)
  with length_configure_table_names [of env k] length_configure_table_names [of env k']
  show False by (cases "env = ''dev''") simp_all
qed

lemma set_cleanup_loop:
  "set (cleanup_loop w h ns) = (\<lambda>n. Call (DeleteTable n)) ` set ns"
  by (induction ns arbitrary: h) (auto simp: Let_def)

lemma cleanup_existing_restore_tables_events:
  "e \<in> set (cleanup_existing_restore_tables w h ns) \<Longrightarrow>
     (\<exists>n \<in> set ns. e = Call (DeleteTable n)) \<or> e = Sleep 10"
  by (auto simp: cleanup_existing_restore_tables_def set_cleanup_loop split: if_splits)

text \<open>
  C10: every table name that the search for stale restore tables selects, and every
  table that the cleanup before the run deletes, starts with a production table name
  followed by \<^verbatim>\<open>-restore-\<close>, is none of the restore table names of the current
  restore point, and is none of the production tables.
\<close>

theorem stale_restore_tables_safe:
  assumes "tables self = configure_table_names env"
  shows "\<forall>n. (n \<in> set (fst (find_old_restore_tables w h self current)) \<or>
            Call (DeleteTable n) \<in> set (cleanup_existing_restore_tables w h'
              (fst (find_old_restore_tables w h self current)))) \<longrightarrow>
          (\<exists>k. prefix (tables self k @ ''-restore-'') n) \<and>
          (\<forall>k. n \<noteq> current k) \<and> (\<forall>k. n \<noteq> tables self k)"
proof (intro allI impI)
  fix n
  assume "n \<in> set (fst (find_old_restore_tables w h self current)) \<or>
     Call (DeleteTable n) \<in> set (cleanup_existing_restore_tables w h'
       (fst (find_old_restore_tables w h self current)))"
  then have "n \<in> set (fst (find_old_restore_tables w h self current))"
    by (auto dest: cleanup_existing_restore_tables_events)
  from find_old_restore_tables_sound [OF this]
  show "(\<exists>k. prefix (tables self k @ ''-restore-'') n) \<and>
        (\<forall>k. n \<noteq> current k) \<and> (\<forall>k. n \<noteq> tables self k)"
    using assms restore_pattern_not_production by auto
qed

theorem stale_restore_tables_safe_witness:
  "tables example_self = configure_table_names ''dev'' \<and>
   fst (find_old_restore_tables stale_account [] example_self example_names) =
     [''quote-lambda-tf-quotes-dev-restore-20251101120000''] \<and>
   (\<exists>k. prefix (tables example_self k @ ''-restore-'')
      ''quote-lambda-tf-quotes-dev-restore-20251101120000'') \<and>
   (\<forall>k. ''quote-lambda-tf-quotes-dev-restore-20251101120000'' \<noteq> example_names k) \<and>
   (\<forall>k. ''quote-lambda-tf-quotes-dev-restore-20251101120000'' \<noteq> tables example_self k)"
proof -
  have t: "tables example_self = configure_table_names ''dev''"
    by (simp add: example_self_def init_def set_restore_point_def)
  have f: "fst (find_old_restore_tables stale_account [] example_self example_names) =
     [''quote-lambda-tf-quotes-dev-restore-20251101120000'']"
    by code_simp
  from stale_restore_tables_safe [OF t, of stale_account "[]" example_names "[]"] f t
  show ?thesis by simp
qed

subsection \<open>The lock\<close>

text \<open>
  C4 does not hold of the code: while another run holds the lock, a run that finds
  no restore table of its own restore point deletes the restore table of another
  restore point before it tries to acquire the lock, and then fails to acquire it.
\<close>

theorem lock_failure_after_deletion:
  "run locked_account (init ''dev'' 30 False) ''2025-12-19T18:00:00'' =
   (False,
    [StatusUpdate ''INITIALIZING'' None,
     Call (DescribeTable ''quote-lambda-tf-quotes-dev-restore-20251219180000''),
     Call (DescribeTable ''quote-lambda-tf-user-likes-dev-restore-20251219180000''),
     Call (DescribeTable ''quote-lambda-tf-user-views-dev-restore-20251219180000''),
     Call ListTables,
     Call (DeleteTable ''quote-lambda-tf-quotes-dev-restore-20251101120000''),
     Sleep 10, Log (WithinLimit 2 0), LockFailed,
     StatusUpdate ''FAILED'' (Some ''Could not acquire restore lock'')])"
  by code_simp

subsection \<open>The events of each phase\<close>

lemma check_existing_loop_events:
  "e \<in> set (snd (check_existing_loop w h rt ex ks)) \<Longrightarrow> \<exists>k. e = Call (DescribeTable (rt k))"
  by (induction ks arbitrary: h ex) (auto simp: Let_def split_beta)

lemma reuse_or_cleanup_events:
  assumes "e \<in> set (snd (reuse_or_cleanup w h self rt))"
  shows "e = Sleep 10 \<or> e = Call ListTables \<or> (\<exists>k. e = Call (DescribeTable (rt k))) \<or>
         (\<exists>n. e = Call (DeleteTable n) \<and> (\<forall>k. n \<noteq> rt k) \<and> \<not> dry_run self \<and>
              \<not> fst (reuse_or_cleanup w h self rt))"
proof -
  obtain ex evs1 where c: "check_existing_restore_tables w h rt = (ex, evs1)"
    by (cases "check_existing_restore_tables w h rt")
  have evs1: "x \<in> set evs1 \<Longrightarrow> \<exists>k. x = Call (DescribeTable (rt k))" for x
    using check_existing_loop_events [of x w h rt "[]" table_keys] c
    by (simp add: check_existing_restore_tables_def)
  show ?thesis
  proof (cases "ex = []")
    case False
    with assms c evs1 show ?thesis by (auto simp: reuse_or_cleanup_def)
  next
    case True
    define old where "old = fst (find_old_restore_tables w (h @ evs1) self rt)"
    have old: "n \<in> set old \<Longrightarrow> \<forall>k. n \<noteq> rt k" for n
      unfolding old_def using find_old_restore_tables_sound by blast
    from True c have r: "reuse_or_cleanup w h self rt =
        (False, evs1 @ [Call ListTables] @
          (if old \<noteq> [] \<and> \<not> dry_run self
           then cleanup_existing_restore_tables w (h @ evs1 @ [Call ListTables]) old else []))"
      using find_old_restore_tables_events [of w "h @ evs1" self rt]
      by (simp add: reuse_or_cleanup_def split_beta old_def)
    from assms r have "e \<in> set evs1 \<or> e = Call ListTables \<or>
        (\<not> dry_run self \<and>
          e \<in> set (cleanup_existing_restore_tables w (h @ evs1 @ [Call ListTables]) old))"
      by (auto split: if_splits)
    then show ?thesis
      using evs1 old r cleanup_existing_restore_tables_events [of e w _ old] by fastforce
  qed
qed

lemma restore_window_diagnostics_events:
  "e \<in> set (restore_window_diagnostics w h t) \<Longrightarrow>
     e = Call (DescribeTable t) \<or> e = Call (DescribeContinuousBackups t)"
  by (auto simp: restore_window_diagnostics_def Let_def split: response.splits option.splits)

lemma initiate_loop_events:
  "e \<in> set (snd (initiate_loop w h self rt utc ks)) \<Longrightarrow>
     \<not> dry_run self \<and>
     (is_restore_call e \<or> (\<exists>k. e = Call (DescribeTable (tables self k))) \<or>
      (\<exists>k. e = Call (DescribeContinuousBackups (tables self k))))"
  by (induction ks arbitrary: h)
    (auto simp: Let_def split_beta split: if_splits response.splits
      dest: restore_window_diagnostics_events)

lemma initiate_pitr_restores_events:
  "e \<in> set (snd (initiate_pitr_restores w h self rp)) \<Longrightarrow>
     \<not> dry_run self \<and>
     (is_restore_call e \<or> (\<exists>k. e = Call (DescribeTable (tables self k))) \<or>
      (\<exists>k. e = Call (DescribeContinuousBackups (tables self k))))"
  by (auto simp: initiate_pitr_restores_def Let_def split_beta split: sum.splits
      dest: initiate_loop_events)

lemma poll_tables_events:
  "e \<in> set (snd (poll_tables w h self rt a ks)) \<Longrightarrow>
     \<not> dry_run self \<and> (\<exists>k. e = Call (DescribeTable (rt k)))"
  by (induction ks arbitrary: h a)
    (auto simp: Let_def split_beta split: if_splits response.splits)

lemma poll_loop_events:
  "e \<in> set (snd (poll_loop w self rt h el)) \<Longrightarrow>
     e = Sleep 10 \<or> (\<not> dry_run self \<and> (\<exists>k. e = Call (DescribeTable (rt k))))"
proof (induction w self rt h el rule: poll_loop.induct)
  case (1 w self rt h el)
  show ?case
  proof (cases "el < timeout_minutes self * 60")
    case False
    with "1.prems" show ?thesis by (simp add: poll_loop.simps [of w self rt h el])
  next
    case True
    obtain r evs where p: "poll_tables w h self rt True table_keys = (r, evs)"
      by (cases "poll_tables w h self rt True table_keys")
    have evs: "x \<in> set evs \<Longrightarrow> \<not> dry_run self \<and> (\<exists>k. x = Call (DescribeTable (rt k)))" for x
      using poll_tables_events [of x w h self rt True table_keys] p by simp
    show ?thesis
    proof (cases r)
      case None
      with "1.prems" True p evs show ?thesis
        by (auto simp: poll_loop.simps [of w self rt h el])
    next
      case (Some all_active)
      show ?thesis
      proof (cases all_active)
        case True
        with "1.prems" \<open>el < timeout_minutes self * 60\<close> p evs Some show ?thesis
          by (auto simp: poll_loop.simps [of w self rt h el])
      next
        case False
        from "1.IH" [OF \<open>el < timeout_minutes self * 60\<close> p [symmetric] Some False]
        have ih: "e \<in> set (snd (poll_loop w self rt (h @ evs @ [Sleep 10]) (el + 10))) \<Longrightarrow>
            e = Sleep 10 \<or> (\<not> dry_run self \<and> (\<exists>k. e = Call (DescribeTable (rt k))))" .
        from "1.prems" \<open>el < timeout_minutes self * 60\<close> p Some False
        have "e \<in> set evs \<or> e = Sleep 10 \<or>
            e \<in> set (snd (poll_loop w self rt (h @ evs @ [Sleep 10]) (el + 10)))"
          by (auto simp: poll_loop.simps [of w self rt h el] split_beta)
        with ih evs show ?thesis by blast
      qed
    qed
  qed
qed

lemma verify_loop_events:
  "e \<in> set (snd (verify_loop w h self rt ks)) \<Longrightarrow>
     \<not> dry_run self \<and>
     ((\<exists>t. e = Call (ScanCount t)) \<or> (\<exists>k a b. e = Log (count_outcome k a b)))"
  by (induction ks arbitrary: h)
    (auto simp: Let_def split_beta split: if_splits response.splits, blast+)

lemma delete_loop_events:
  "e \<in> set (snd (delete_loop w h self rt a ks)) \<Longrightarrow>
     \<not> dry_run self \<and> (\<exists>k. e = Call (DeleteTable (rt k)))"
  by (induction ks arbitrary: h a)
    (auto simp: Let_def split_beta split: if_splits)

subsection \<open>Batches and the events of the swap\<close>

lemma length_batch: "b \<in> set (batches items) \<Longrightarrow> length b \<le> batch_size"
  by (auto simp: batches_def)

lemma concat_take_drop:
  "concat (map (\<lambda>j. take n (drop (j * n) xs)) [0..<k]) = take (k * n) xs"
proof (induction k)
  case 0
  show ?case by simp
next
  case (Suc k)
  have "take (k * n) xs @ take n (drop (k * n) xs) = take (k * n + n) xs"
    by (simp add: take_add)
  with Suc show ?case by (simp add: add.commute)
qed

lemma concat_batches: "concat (batches items) = items"
proof -
  have "concat (batches items) =
      take ((length items + batch_size - 1) div batch_size * batch_size) items"
    using concat_take_drop [of batch_size items "(length items + batch_size - 1) div batch_size"]
    by (simp add: batches_def batch_offsets_def comp_def)
  moreover have "length items \<le> (length items + batch_size - 1) div batch_size * batch_size"
    by (simp add: batch_size_def)
  ultimately show ?thesis by simp
qed

lemma batch_nonempty: "b \<in> set (batches items) \<Longrightarrow> b \<noteq> []"
proof -
  assume "b \<in> set (batches items)"
  then obtain j where j: "j < (length items + batch_size - 1) div batch_size"
    and b: "b = take batch_size (drop (j * batch_size) items)"
    by (auto simp: batches_def batch_offsets_def)
  from j have "j * batch_size < length items"
    by (simp add: batch_size_def)
  with b show "b \<noteq> []" by (simp add: batch_size_def)
qed

lemma those_Some_length: "those xs = Some ys \<Longrightarrow> length ys = length xs"
  by (induction xs arbitrary: ys) (auto split: option.splits)

lemma delete_page_events:
  "e \<in> set (snd (delete_page w h t kn bs)) \<Longrightarrow>
     \<exists>rs. e = Call (BatchWriteItem t rs) \<and> rs \<noteq> [] \<and> (\<exists>b \<in> set bs. length rs = length b)"
proof (induction bs arbitrary: h)
  case Nil
  then show ?case by simp
next
  case (Cons b bs)
  show ?case
  proof (cases "those (map (item_key kn) b)")
    case None
    with Cons.prems show ?thesis by simp
  next
    case (Some keys)
    then have l: "length keys = length b" by (auto dest: those_Some_length)
    from Cons.prems Some l Cons.IH show ?thesis
      by (auto simp: Let_def split_beta split: if_splits response.splits) fastforce+
  qed
qed

lemma put_page_events:
  "e \<in> set (snd (put_page w h t n bs)) \<Longrightarrow>
     \<exists>rs. e = Call (BatchWriteItem t rs) \<and> rs \<noteq> [] \<and> (\<exists>b \<in> set bs. length rs = length b)"
proof (induction bs arbitrary: h n)
  case Nil
  then show ?case by simp
next
  case (Cons b bs)
  from Cons.prems Cons.IH show ?case
    by (auto simp: Let_def split_beta split: if_splits response.splits) fastforce+
qed


lemma clear_stream_events:
  "e \<in> set (snd (clear_stream w h t kn c st)) \<Longrightarrow>
     (\<exists>c'. e = Call (Scan t c')) \<or>
     (\<exists>rs. e = Call (BatchWriteItem t rs) \<and> rs \<noteq> [] \<and> length rs \<le> batch_size)"
proof (induction st arbitrary: h c)
  case (ScanFailed x)
  then show ?case by simp
next
  case (LastPage items)
  then show ?case
    by (auto simp: Let_def split_beta dest!: delete_page_events dest: length_batch)
next
  case (MorePages items k rest)
  from MorePages.prems have
    "e = Call (Scan t c) \<or>
     e \<in> set (snd (delete_page w (h @ [Call (Scan t c)]) t kn (batches items))) \<or>
     e \<in> set (snd (clear_stream w
        (h @ Call (Scan t c) # snd (delete_page w (h @ [Call (Scan t c)]) t kn (batches items)))
        t kn (Some k) rest))"
    by (auto simp: Let_def split_beta split: if_splits)
  then show ?case
    using MorePages.IH by (auto dest!: delete_page_events dest: length_batch)
qed

lemma clear_table_events:
  "e \<in> set (snd (clear_table w h t)) \<Longrightarrow>
     e = Call (DescribeTable t) \<or> (\<exists>c'. e = Call (Scan t c')) \<or>
     (\<exists>rs. e = Call (BatchWriteItem t rs) \<and> rs \<noteq> [] \<and> length rs \<le> batch_size)"
  by (auto simp: clear_table_def Let_def split_beta split: response.splits
      dest: clear_stream_events)

lemma copy_stream_events:
  "e \<in> set (snd (copy_stream w h s t n c st)) \<Longrightarrow>
     (\<exists>c'. e = Call (Scan s c')) \<or>
     (\<exists>rs. e = Call (BatchWriteItem t rs) \<and> rs \<noteq> [] \<and> length rs \<le> batch_size)"
proof (induction st arbitrary: h c n)
  case (ScanFailed x)
  then show ?case by simp
next
  case (LastPage items)
  then show ?case
    by (auto simp: Let_def split_beta dest!: put_page_events dest: length_batch)
next
  case (MorePages items k rest)
  obtain r evs where p: "put_page w (h @ [Call (Scan s c)]) t n (batches items) = (r, evs)"
    by (cases "put_page w (h @ [Call (Scan s c)]) t n (batches items)")
  have evs: "x \<in> set evs \<Longrightarrow>
      \<exists>rs. x = Call (BatchWriteItem t rs) \<and> rs \<noteq> [] \<and> length rs \<le> batch_size" for x
    using put_page_events [of x w "h @ [Call (Scan s c)]" t n "batches items"] p
    by (auto dest: length_batch)
  show ?case
  proof (cases r)
    case None
    with MorePages.prems p evs show ?thesis by (auto simp: Let_def)
  next
    case (Some written)
    with MorePages.prems p have
      "e = Call (Scan s c) \<or> e \<in> set evs \<or>
       e \<in> set (snd (copy_stream w (h @ Call (Scan s c) # evs) s t written (Some k) rest))"
      by (auto simp: Let_def split_beta)
    then show ?thesis using MorePages.IH evs by blast
  qed
qed

lemma swap_table_data_events:
  "e \<in> set (snd (swap_table_data w h orig rest)) \<Longrightarrow>
     e = Call (DescribeTable orig) \<or> (\<exists>t c'. e = Call (Scan t c')) \<or>
     (\<exists>rs. e = Call (BatchWriteItem orig rs) \<and> rs \<noteq> [] \<and> length rs \<le> batch_size)"
  by (auto simp: swap_table_data_def copy_table_data_def Let_def split_beta split: if_splits
      dest!: clear_table_events copy_stream_events)

lemma swap_loop_events:
  "e \<in> set (snd (swap_loop w h self rt ks)) \<Longrightarrow>
     \<not> dry_run self \<and>
     ((\<exists>k. e = Call (DescribeTable (tables self k))) \<or> (\<exists>t c'. e = Call (Scan t c')) \<or>
      (\<exists>k rs. e = Call (BatchWriteItem (tables self k) rs) \<and> rs \<noteq> [] \<and>
         length rs \<le> batch_size))"
proof (induction ks arbitrary: h)
  case Nil
  then show ?case by simp
next
  case (Cons k ks)
  show ?case
  proof (cases "dry_run self")
    case True
    with Cons show ?thesis by simp
  next
    case False
    with Cons.prems have
      "e \<in> set (snd (swap_table_data w h (tables self k) (rt k))) \<or>
       e \<in> set (snd (swap_loop w (h @ snd (swap_table_data w h (tables self k) (rt k)))
                      self rt ks))"
      by (auto simp: Let_def split_beta split: if_splits)
    then show ?thesis
      using Cons.IH False by (auto dest!: swap_table_data_events)
  qed
qed

subsection \<open>The shape of a run up to the polling\<close>

lemma is_validation_validate: "is_validation (Log (snd (validate_restore_point w h rp)))"
  by (simp add: validate_restore_point_def Let_def split: sum.splits)

lemma reuse_or_cleanup_no_validation:
  "e \<in> set (snd (reuse_or_cleanup w h self rt)) \<Longrightarrow> \<not> is_validation e"
  by (auto dest!: reuse_or_cleanup_events)

lemma preflight_no_validation: "e \<in> set (preflight w self0 dt) \<Longrightarrow> \<not> is_validation e"
  by (auto simp: preflight_def Let_def update_status_def dest!: reuse_or_cleanup_no_validation)

lemma before_poll_parse_error:
  "isoparse w rp = Inl m \<Longrightarrow>
     before_poll w self0 rp =
       Inl [update_status ''INITIALIZING'' None, update_status ''FAILED'' (Some m)]"
  by (simp add: before_poll_def)

lemma before_poll_invalid:
  assumes "isoparse w rp = Inr dt"
    and "\<not> fst (validate_restore_point w (preflight w self0 dt) rp)"
  shows "before_poll w self0 rp =
     Inl (preflight w self0 dt @
       [Log (snd (validate_restore_point w (preflight w self0 dt) rp)),
        update_status ''FAILED'' (Some ''Invalid restore point'')])"
  using assms by (simp add: before_poll_def preflight_def Let_def split_beta)

lemma before_poll_lock_failed:
  assumes "isoparse w rp = Inr dt"
    and "fst (validate_restore_point w (preflight w self0 dt) rp)"
    and "\<not> lock_acquire w (preflight w self0 dt @
           [Log (snd (validate_restore_point w (preflight w self0 dt) rp))])"
  shows "before_poll w self0 rp =
     Inl (preflight w self0 dt @
       [Log (snd (validate_restore_point w (preflight w self0 dt) rp)), LockFailed,
        update_status ''FAILED'' (Some ''Could not acquire restore lock'')])"
  using assms by (simp add: before_poll_def preflight_def Let_def split_beta)

lemma before_poll_skip:
  assumes "isoparse w rp = Inr dt"
    and "fst (validate_restore_point w (preflight w self0 dt) rp)"
    and "lock_acquire w (preflight w self0 dt @
           [Log (snd (validate_restore_point w (preflight w self0 dt) rp))])"
    and "fst (reuse_or_cleanup w [update_status ''INITIALIZING'' None]
           (set_restore_point self0 dt)
           (get_restore_table_names (set_restore_point self0 dt)
              (now w [update_status ''INITIALIZING'' None])))"
  shows "before_poll w self0 rp =
     Inr (set_restore_point self0 dt,
          get_restore_table_names (set_restore_point self0 dt)
            (now w [update_status ''INITIALIZING'' None]),
          preflight w self0 dt @
            [Log (snd (validate_restore_point w (preflight w self0 dt) rp)), LockAcquired])"
  using assms by (simp add: before_poll_def preflight_def Let_def split_beta)

lemma before_poll_prefix:
  assumes "isoparse w rp = Inr dt"
  shows "\<exists>rest. (case before_poll w self0 rp of Inl tr \<Rightarrow> tr | Inr (s, rt, h) \<Rightarrow> h) =
     preflight w self0 dt @
       Log (snd (validate_restore_point w (preflight w self0 dt) rp)) # rest"
  using assms
  by (auto simp: before_poll_def preflight_def Let_def split_beta split: sum.splits)

lemma run_prefix:
  assumes "isoparse w rp = Inr dt"
  shows "\<exists>rest. snd (run w self0 rp) =
     preflight w self0 dt @
       Log (snd (validate_restore_point w (preflight w self0 dt) rp)) # rest"
proof -
  from before_poll_prefix [OF assms, of self0] obtain rest where
    r: "(case before_poll w self0 rp of Inl tr \<Rightarrow> tr | Inr (s, rt, h) \<Rightarrow> h) =
     preflight w self0 dt @
       Log (snd (validate_restore_point w (preflight w self0 dt) rp)) # rest" ..
  show ?thesis
  proof (cases "before_poll w self0 rp")
    case (Inl tr)
    with r show ?thesis by (simp add: run_def)
  next
    case (Inr x)
    then obtain s rt h where "before_poll w self0 rp = Inr (s, rt, h)"
      by (cases x) auto
    with r show ?thesis by (simp add: run_def split_beta)
  qed
qed

lemma run_before_validation:
  assumes "isoparse w rp = Inr dt"
  shows "before_validation (snd (run w self0 rp)) = preflight w self0 dt"
proof -
  from run_prefix [OF assms, of self0] obtain rest where
    "snd (run w self0 rp) = preflight w self0 dt @
       Log (snd (validate_restore_point w (preflight w self0 dt) rp)) # rest" ..
  then show ?thesis
    using preflight_no_validation [of _ w self0 dt] is_validation_validate
    by (simp add: before_validation_def takeWhile_tail)
qed

subsection \<open>Validation of the restore point\<close>

lemma statuses_append: "statuses (xs @ ys) = statuses xs @ statuses ys"
  by (induction xs rule: statuses.induct) simp_all

lemma preflight_events:
  "e \<in> set (preflight w self0 dt) \<Longrightarrow>
     e = StatusUpdate ''INITIALIZING'' None \<or> e = Sleep 10 \<or> e = Call ListTables \<or>
     (\<exists>t. e = Call (DescribeTable t)) \<or>
     (\<exists>n. e = Call (DeleteTable n) \<and> \<not> dry_run self0 \<and>
        (\<forall>k. n \<noteq> get_restore_table_names (set_restore_point self0 dt)
                      (now w [update_status ''INITIALIZING'' None]) k))"
  by (auto simp: preflight_def Let_def update_status_def set_restore_point_def
      dest!: reuse_or_cleanup_events)

lemma run_invalid:
  assumes "isoparse w rp = Inr dt"
    and "\<not> fst (validate_restore_point w (preflight w self0 dt) rp)"
  shows "run w self0 rp =
     (False, preflight w self0 dt @
       [Log (snd (validate_restore_point w (preflight w self0 dt) rp)),
        StatusUpdate ''FAILED'' (Some ''Invalid restore point'')])"
  using before_poll_invalid [OF assms] by (simp add: run_def update_status_def)

lemma run_parse_error:
  "isoparse w rp = Inl m \<Longrightarrow>
     run w self0 rp =
       (False, [StatusUpdate ''INITIALIZING'' None, update_status ''FAILED'' (Some m)])"
  by (simp add: run_def before_poll_parse_error update_status_def)

text \<open>
  C6: for a restore point that parses, validation rejects an age above 35 days (too
  old) and a negative age (in the future) and accepts every age from zero to 35 days;
  when the age read at the validation of a run is above 35 days or negative, the run
  returns \<^verbatim>\<open>False\<close>, exits with code 1, records \<^verbatim>\<open>FAILED\<close> with the reason
  \<^verbatim>\<open>Invalid restore point\<close> and initiates no restore.
\<close>

theorem validation_window:
  assumes "isoparse w rp = Inr dt"
  shows
    "(timedelta_days 35 < epoch_micros (now w h) - epoch_micros dt \<longrightarrow>
        validate_restore_point w h rp =
          (False, TooOld ((epoch_micros (now w h) - epoch_micros dt) div 86400000000))) \<and>
     (epoch_micros (now w h) - epoch_micros dt < 0 \<longrightarrow>
        validate_restore_point w h rp = (False, InFuture)) \<and>
     (0 \<le> epoch_micros (now w h) - epoch_micros dt \<and>
      epoch_micros (now w h) - epoch_micros dt \<le> timedelta_days 35 \<longrightarrow>
        fst (validate_restore_point w h rp)) \<and>
     (timedelta_days 35 <
        epoch_micros (now w (before_validation (snd (run w self0 rp)))) - epoch_micros dt \<or>
      epoch_micros (now w (before_validation (snd (run w self0 rp)))) - epoch_micros dt < 0 \<longrightarrow>
        \<not> fst (run w self0 rp) \<and> exit_code w self0 rp = 1 \<and>
        last (statuses (snd (run w self0 rp))) = (''FAILED'', Some ''Invalid restore point'') \<and>
        (\<forall>e \<in> set (snd (run w self0 rp)). \<not> is_restore_call e))"
proof -
  have v: "timedelta_days 35 < epoch_micros (now w h) - epoch_micros dt \<longrightarrow>
        validate_restore_point w h rp =
          (False, TooOld ((epoch_micros (now w h) - epoch_micros dt) div 86400000000))"
    "epoch_micros (now w h) - epoch_micros dt < 0 \<longrightarrow>
        validate_restore_point w h rp = (False, InFuture)"
    "0 \<le> epoch_micros (now w h) - epoch_micros dt \<and>
      epoch_micros (now w h) - epoch_micros dt \<le> timedelta_days 35 \<longrightarrow>
        fst (validate_restore_point w h rp)" for h
    using assms
    by (auto simp: validate_restore_point_def Let_def timedelta_days_def)
  have r: "\<not> fst (run w self0 rp) \<and> exit_code w self0 rp = 1 \<and>
        last (statuses (snd (run w self0 rp))) = (''FAILED'', Some ''Invalid restore point'') \<and>
        (\<forall>e \<in> set (snd (run w self0 rp)). \<not> is_restore_call e)"
    if a: "timedelta_days 35 <
        epoch_micros (now w (before_validation (snd (run w self0 rp)))) - epoch_micros dt \<or>
      epoch_micros (now w (before_validation (snd (run w self0 rp)))) - epoch_micros dt < 0"
  proof -
    from a have "timedelta_days 35 <
        epoch_micros (now w (preflight w self0 dt)) - epoch_micros dt \<or>
      epoch_micros (now w (preflight w self0 dt)) - epoch_micros dt < 0"
      by (simp add: run_before_validation [OF assms])
    with assms have n: "\<not> fst (validate_restore_point w (preflight w self0 dt) rp)"
      by (auto simp: validate_restore_point_def Let_def timedelta_days_def)
    note run = run_invalid [OF assms n]
    have "\<forall>e \<in> set (snd (run w self0 rp)). \<not> is_restore_call e"
      using is_validation_validate [of w "preflight w self0 dt" rp]
      by (auto simp: run dest!: preflight_events)
    then show ?thesis
      by (simp add: run exit_code_def statuses_append)
  qed
  from v r show ?thesis by blast
qed

theorem validation_window_witness:
  "validate_restore_point stale_account [] ''2025-11-01T12:00:00'' = (False, TooOld 50) \<and>
   validate_restore_point stale_account [] ''2026-01-01T00:00:00'' = (False, InFuture) \<and>
   fst (validate_restore_point stale_account [] ''2025-12-19T18:00:00'') \<and>
   \<not> fst (run stale_account (init ''dev'' 30 False) ''2025-11-01T12:00:00'') \<and>
   exit_code stale_account (init ''dev'' 30 False) ''2025-11-01T12:00:00'' = 1 \<and>
   last (statuses (snd (run stale_account (init ''dev'' 30 False) ''2025-11-01T12:00:00''))) =
     (''FAILED'', Some ''Invalid restore point'')"
proof -
  have p: "isoparse stale_account ''2025-11-01T12:00:00'' = Inr point_old"
    "isoparse stale_account ''2026-01-01T00:00:00'' = Inr point_future"
    "isoparse stale_account ''2025-12-19T18:00:00'' = Inr point_a"
    by (simp_all add: stale_account_def example_isoparse_def)
  have a: "timedelta_days 35 < epoch_micros (now stale_account h) - epoch_micros point_old"
    "epoch_micros (now stale_account h) - epoch_micros point_future < 0"
    "0 \<le> epoch_micros (now stale_account h) - epoch_micros point_a"
    "epoch_micros (now stale_account h) - epoch_micros point_a \<le> timedelta_days 35"
    "(epoch_micros (now stale_account h) - epoch_micros point_old) div 86400000000 = 50" for h
    by (simp_all add: stale_account_def now_point_def point_old_def point_future_def
        point_a_def timedelta_days_def)
  note w1 = validation_window [OF p(1), of "[]" "init ''dev'' 30 False"]
  note w2 = validation_window [OF p(2), of "[]" "init ''dev'' 30 False"]
  note w3 = validation_window [OF p(3), of "[]" "init ''dev'' 30 False"]
  from w1 a(1) have "validate_restore_point stale_account [] ''2025-11-01T12:00:00'' =
      (False, TooOld ((epoch_micros (now stale_account []) - epoch_micros point_old)
         div 86400000000))"
    by blast
  then have c1: "validate_restore_point stale_account [] ''2025-11-01T12:00:00'' =
      (False, TooOld 50)"
    by (simp only: a(5))
  from w2 a(2) have c2: "validate_restore_point stale_account [] ''2026-01-01T00:00:00'' =
      (False, InFuture)"
    by blast
  from w3 a(3) a(4) have c3: "fst (validate_restore_point stale_account []
      ''2025-12-19T18:00:00'')"
    by blast
  from w1 a(1) have c4: "\<not> fst (run stale_account (init ''dev'' 30 False) ''2025-11-01T12:00:00'') \<and>
   exit_code stale_account (init ''dev'' 30 False) ''2025-11-01T12:00:00'' = 1 \<and>
   last (statuses (snd (run stale_account (init ''dev'' 30 False) ''2025-11-01T12:00:00''))) =
     (''FAILED'', Some ''Invalid restore point'')"
    by blast
  from c1 c2 c3 c4 show ?thesis by blast
qed

text \<open>
  C3 does not hold of the code: the search for restore tables and the deletion of the
  restore tables of other restore points (lines 160 to 187) come before the validation
  (line 190). A run whose restore point is 50 days old, in an account that holds a
  restore table of another restore point, probes and lists the tables and deletes that
  restore table, and only then rejects the restore point.
\<close>

theorem deletion_before_rejected_validation:
  "run stale_account (init ''dev'' 30 False) ''2025-11-01T12:00:00'' =
   (False,
    [StatusUpdate ''INITIALIZING'' None,
     Call (DescribeTable ''quote-lambda-tf-quotes-dev-restore-20251101120000''),
     Call (DescribeTable ''quote-lambda-tf-user-likes-dev-restore-20251101120000''),
     Call (DescribeTable ''quote-lambda-tf-user-views-dev-restore-20251101120000''),
     Call ListTables,
     Call (DeleteTable ''quote-lambda-tf-quotes-dev-restore-20251219180000''),
     Sleep 10, Log (TooOld 50),
     StatusUpdate ''FAILED'' (Some ''Invalid restore point'')])"
  by code_simp

subsection \<open>The run from the polling on\<close>

lemma from_poll_timeout:
  "\<not> fst (poll_restore_completion w h self rt) \<Longrightarrow>
     from_poll w h self rt =
       (False, snd (poll_restore_completion w h self rt) @
          [StatusUpdate ''FAILED'' (Some ''Restore operation timed out'')])"
  by (simp add: from_poll_def split_beta update_status_def)

lemma from_poll_starts_with_poll:
  "\<exists>rest. snd (from_poll w h self rt) = snd (poll_restore_completion w h self rt) @ rest"
  by (simp add: from_poll_def split_beta)

lemma from_poll_events:
  assumes "e \<in> set (snd (from_poll w h self rt))"
  shows "e = Sleep 10 \<or> (\<exists>m. e = StatusUpdate ''FAILED'' (Some m)) \<or>
     (\<not> dry_run self \<and>
       ((\<exists>t. e = Call (DescribeTable t)) \<or> (\<exists>t. e = Call (ScanCount t)) \<or>
        (\<exists>k a b. e = Log (count_outcome k a b)) \<or> (\<exists>t c. e = Call (Scan t c)) \<or>
        (\<exists>k rs. e = Call (BatchWriteItem (tables self k) rs) \<and> rs \<noteq> [] \<and>
           length rs \<le> batch_size) \<or>
        (\<exists>k. e = Call (DeleteTable (rt k)))))"
proof -
  define evs1 where "evs1 = snd (poll_restore_completion w h self rt)"
  define evs2 where "evs2 = snd (verify_item_counts w (h @ evs1) self rt)"
  define evs3 where "evs3 = snd (swap_data w (h @ evs1 @ evs2) self rt)"
  define evs4 where "evs4 = snd (delete_restore_tables w (h @ evs1 @ evs2 @ evs3) self rt)"
  from assms have "e \<in> set evs1 \<or> e \<in> set evs2 \<or> e \<in> set evs3 \<or> e \<in> set evs4 \<or>
      (\<exists>m. e = StatusUpdate ''FAILED'' (Some m))"
    by (auto simp: from_poll_def split_beta update_status_def evs1_def evs2_def evs3_def
        evs4_def split: if_splits)
  moreover have "e \<in> set evs1 \<Longrightarrow> ?thesis"
    using poll_loop_events [of e w self rt h 0]
    by (auto simp: evs1_def poll_restore_completion_def)
  moreover have "e \<in> set evs2 \<Longrightarrow> ?thesis"
    using verify_loop_events [of e w "h @ evs1" self rt table_keys]
    by (auto simp: evs2_def verify_item_counts_def)
  moreover have "e \<in> set evs3 \<Longrightarrow> ?thesis"
    using swap_loop_events [of e w "h @ evs1 @ evs2" self rt table_keys]
    by (auto simp: evs3_def swap_data_def)
  moreover have "e \<in> set evs4 \<Longrightarrow> ?thesis"
    using delete_loop_events [of e w "h @ evs1 @ evs2 @ evs3" self rt True table_keys]
    by (auto simp: evs4_def delete_restore_tables_def)
  ultimately show ?thesis by blast
qed

lemma before_poll_subset:
  assumes "isoparse w rp = Inr dt"
  shows "set (case before_poll w self0 rp of Inl tr \<Rightarrow> tr | Inr (s, rt, h) \<Rightarrow> h) \<subseteq>
     set (preflight w self0 dt) \<union>
     {Log (snd (validate_restore_point w (preflight w self0 dt) rp)),
      LockFailed, LockAcquired, LockReleased} \<union> {e. \<exists>s m. e = StatusUpdate s m} \<union>
     set (snd (initiate_pitr_restores w
       (preflight w self0 dt @
          [Log (snd (validate_restore_point w (preflight w self0 dt) rp)), LockAcquired])
       (set_restore_point self0 dt) rp))"
  using assms
  by (auto simp: before_poll_def preflight_def Let_def split_beta update_status_def
      split: sum.splits if_splits)

lemma before_poll_Inr:
  assumes "before_poll w self0 rp = Inr (self, rt, h)"
  shows "\<exists>dt. isoparse w rp = Inr dt \<and> self = set_restore_point self0 dt \<and>
     rt = get_restore_table_names self (now w [update_status ''INITIALIZING'' None])"
  using assms
  by (auto simp: before_poll_def Let_def split_beta split: sum.splits if_splits)

subsection \<open>The events of a whole run, and dry runs\<close>

lemma run_lock_failed:
  assumes "isoparse w rp = Inr dt"
    and "fst (validate_restore_point w (preflight w self0 dt) rp)"
    and "\<not> lock_acquire w (validated w self0 rp dt)"
  shows "run w self0 rp =
     (False, validated w self0 rp dt @
        [LockFailed, StatusUpdate ''FAILED'' (Some ''Could not acquire restore lock'')])"
  using before_poll_lock_failed [OF assms(1,2)] assms(3)
  by (simp add: run_def validated_def update_status_def)

lemma run_skip:
  assumes "isoparse w rp = Inr dt"
    and "fst (validate_restore_point w (preflight w self0 dt) rp)"
    and "lock_acquire w (validated w self0 rp dt)"
    and "fst (reuse_or_cleanup w [update_status ''INITIALIZING'' None]
           (set_restore_point self0 dt) (run_names w self0 dt))"
  shows "before_poll w self0 rp =
     Inr (set_restore_point self0 dt, run_names w self0 dt,
          validated w self0 rp dt @ [LockAcquired])"
  using before_poll_skip [OF assms(1,2), of ] assms(3,4)
  by (simp add: validated_def run_names_def)

lemma run_Inr:
  assumes "before_poll w self0 rp = Inr (self, rt, h)"
  shows "run w self0 rp =
     (fst (from_poll w h self rt),
      h @ snd (from_poll w h self rt) @ LockReleased #
        (if fst (from_poll w h self rt) then [StatusUpdate ''COMPLETED'' None] else []))"
  using assms by (simp add: run_def split_beta update_status_def)

lemma run_events:
  assumes "e \<in> set (snd (run w self0 rp))"
  shows "(\<exists>s m. e = StatusUpdate s m) \<or> (\<exists>l. e = Log l) \<or> e = LockFailed \<or>
     e = LockAcquired \<or> e = LockReleased \<or> e = Sleep 10 \<or> e = Call ListTables \<or>
     (\<exists>t. e = Call (DescribeTable t)) \<or> (\<exists>t. e = Call (DescribeContinuousBackups t)) \<or>
     (\<not> dry_run self0 \<and>
       ((\<exists>t. e = Call (ScanCount t)) \<or> (\<exists>t c. e = Call (Scan t c)) \<or>
        (\<exists>n. e = Call (DeleteTable n)) \<or> is_restore_call e \<or>
        (\<exists>k rs. e = Call (BatchWriteItem (tables self0 k) rs) \<and> rs \<noteq> [] \<and>
           length rs \<le> batch_size)))"
proof (cases "isoparse w rp")
  case (Inl m)
  with assms show ?thesis by (auto simp: run_parse_error update_status_def)
next
  case (Inr dt)
  define v where "v = Log (snd (validate_restore_point w (preflight w self0 dt) rp))"
  define ievs where "ievs = snd (initiate_pitr_restores w
       (preflight w self0 dt @ [v, LockAcquired]) (set_restore_point self0 dt) rp)"
  have s: "dry_run (set_restore_point self0 dt) = dry_run self0"
    "tables (set_restore_point self0 dt) = tables self0"
    by (simp_all add: set_restore_point_def)
  have pre: "x \<in> set (preflight w self0 dt) \<Longrightarrow> ?thesis" if "x = e" for x
    using that by (auto dest!: preflight_events)
  have ini: "x \<in> set ievs \<Longrightarrow> ?thesis" if "x = e" for x
    using that initiate_pitr_restores_events [of e w _ "set_restore_point self0 dt" rp] s
    unfolding ievs_def by blast
  have bp: "x \<in> set (case before_poll w self0 rp of Inl tr \<Rightarrow> tr | Inr (s, rt, h) \<Rightarrow> h)
      \<Longrightarrow> ?thesis" if "x = e" for x
    using before_poll_subset [OF Inr, of self0] pre ini that
    unfolding v_def ievs_def by auto
  show ?thesis
  proof (cases "before_poll w self0 rp")
    case (Inl tr)
    with assms bp show ?thesis by (simp add: run_def)
  next
    case (Inr x)
    then obtain self rt h where b: "before_poll w self0 rp = Inr (self, rt, h)"
      by (cases x) auto
    from before_poll_Inr [OF b] \<open>isoparse w rp = Inr dt\<close>
    have self: "self = set_restore_point self0 dt" by auto
    from assms have "e \<in> set h \<or> e \<in> set (snd (from_poll w h self rt)) \<or>
        e = LockReleased \<or> e = StatusUpdate ''COMPLETED'' None"
      by (auto simp: run_Inr [OF b] split: if_splits)
    moreover have "e \<in> set h \<Longrightarrow> ?thesis" using bp b by simp
    moreover have "e \<in> set (snd (from_poll w h self rt)) \<Longrightarrow> ?thesis"
      using from_poll_events [of e w h self rt] by (auto simp: self s)
    ultimately show ?thesis by blast
  qed
qed

lemma initiate_loop_dry:
  "dry_run self \<Longrightarrow> initiate_loop w h self rt utc ks = (True, [])"
  by (induction ks) simp_all

lemma poll_tables_dry:
  "dry_run self \<Longrightarrow> poll_tables w h self rt a ks = (Some a, [])"
  by (induction ks) simp_all

lemma verify_loop_dry: "dry_run self \<Longrightarrow> verify_loop w h self rt ks = (True, [])"
  by (induction ks) simp_all

lemma swap_loop_dry: "dry_run self \<Longrightarrow> swap_loop w h self rt ks = (True, [])"
  by (induction ks) simp_all

lemma delete_loop_dry: "dry_run self \<Longrightarrow> delete_loop w h self rt a ks = (a, [])"
  by (induction ks) simp_all

lemma from_poll_dry:
  assumes "dry_run self" and "0 < timeout_minutes self"
  shows "from_poll w h self rt = (True, [])"
proof -
  from assms have "poll_restore_completion w h self rt = (True, [])"
    by (simp add: poll_restore_completion_def poll_loop.simps [of w self rt h 0]
        poll_tables_dry)
  with assms(1) show ?thesis
    by (simp add: from_poll_def verify_item_counts_def swap_data_def
        delete_restore_tables_def verify_loop_dry swap_loop_dry delete_loop_dry)
qed

lemma before_poll_dry:
  assumes "isoparse w rp = Inr dt" and "dry_run self0"
    and "fst (validate_restore_point w (preflight w self0 dt) rp)"
    and "lock_acquire w (validated w self0 rp dt)"
  shows "before_poll w self0 rp =
     Inr (set_restore_point self0 dt, run_names w self0 dt,
          validated w self0 rp dt @ [LockAcquired])"
proof -
  have "dry_run (set_restore_point self0 dt)"
    using assms(2) by (simp add: set_restore_point_def)
  then have "initiate_pitr_restores w hh (set_restore_point self0 dt) rp = (Inr True, [])" for hh
    using assms(1) by (simp add: initiate_pitr_restores_def initiate_loop_dry)
  with assms show ?thesis
    by (simp add: before_poll_def preflight_def validated_def run_names_def Let_def split_beta)
qed

text \<open>
  C9, as stated, fails: a dry run whose restore point is older than 35 days ends
  \<^verbatim>\<open>FAILED\<close>, not \<^verbatim>\<open>COMPLETED\<close>.
\<close>

theorem dry_run_rejected_point:
  "dry_run (init ''dev'' 30 True) \<and>
   run stale_account (init ''dev'' 30 True) ''2025-11-01T12:00:00'' =
     (False,
      [StatusUpdate ''INITIALIZING'' None,
       Call (DescribeTable ''quote-lambda-tf-quotes-dev-restore-20251101120000''),
       Call (DescribeTable ''quote-lambda-tf-user-likes-dev-restore-20251101120000''),
       Call (DescribeTable ''quote-lambda-tf-user-views-dev-restore-20251101120000''),
       Call ListTables, Log (TooOld 50),
       StatusUpdate ''FAILED'' (Some ''Invalid restore point'')])"
  by code_simp

text \<open>
  C9, amended: a dry run issues no mutating provider call (no table deletion, no restore
  initiation, no item write or delete) for any input and any provider, and it writes
  the \<^verbatim>\<open>INITIALIZING\<close> status record first; when its restore point parses and is
  validated, the lock is acquired and the polling timeout is positive, it returns
  \<^verbatim>\<open>True\<close>, records \<^verbatim>\<open>COMPLETED\<close> and exits with code 0.
\<close>

theorem dry_run_no_mutation:
  assumes "dry_run self0"
  shows "(\<forall>e \<in> set (snd (run w self0 rp)). \<not> is_mutating e) \<and>
     hd (statuses (snd (run w self0 rp))) = (''INITIALIZING'', None) \<and>
     (\<forall>dt. isoparse w rp = Inr dt \<and>
        fst (validate_restore_point w (preflight w self0 dt) rp) \<and>
        lock_acquire w (validated w self0 rp dt) \<and> 0 < timeout_minutes self0 \<longrightarrow>
        run w self0 rp =
          (True, validated w self0 rp dt @
             [LockAcquired, LockReleased, StatusUpdate ''COMPLETED'' None]) \<and>
        last (statuses (snd (run w self0 rp))) = (''COMPLETED'', None) \<and>
        exit_code w self0 rp = 0)"
proof -
  have m: "\<forall>e \<in> set (snd (run w self0 rp)). \<not> is_mutating e"
  proof
    fix e
    assume "e \<in> set (snd (run w self0 rp))"
    from run_events [OF this] assms show "\<not> is_mutating e" by auto
  qed
  have i: "hd (statuses (snd (run w self0 rp))) = (''INITIALIZING'', None)"
  proof (cases "isoparse w rp")
    case (Inl m)
    then show ?thesis by (simp add: run_parse_error)
  next
    case (Inr dt)
    from run_prefix [OF Inr, of self0] obtain rest where
      "snd (run w self0 rp) = preflight w self0 dt @
         Log (snd (validate_restore_point w (preflight w self0 dt) rp)) # rest" ..
    then show ?thesis by (simp add: preflight_def Let_def update_status_def)
  qed
  have c: "run w self0 rp =
          (True, validated w self0 rp dt @
             [LockAcquired, LockReleased, StatusUpdate ''COMPLETED'' None]) \<and>
        last (statuses (snd (run w self0 rp))) = (''COMPLETED'', None) \<and>
        exit_code w self0 rp = 0"
    if p: "isoparse w rp = Inr dt"
      and v: "fst (validate_restore_point w (preflight w self0 dt) rp)"
      and l: "lock_acquire w (validated w self0 rp dt)" and t: "0 < timeout_minutes self0" for dt
  proof -
    have d: "dry_run (set_restore_point self0 dt)"
      "0 < timeout_minutes (set_restore_point self0 dt)"
      using assms t by (simp_all add: set_restore_point_def)
    have r: "run w self0 rp =
          (True, validated w self0 rp dt @
             [LockAcquired, LockReleased, StatusUpdate ''COMPLETED'' None])"
      by (simp add: run_Inr [OF before_poll_dry [OF p assms v l]] from_poll_dry [OF d])
    then show ?thesis by (simp add: exit_code_def statuses_append)
  qed
  from m i c show ?thesis by blast
qed

theorem dry_run_no_mutation_witness:
  "dry_run (init ''dev'' 30 True) \<and>
   isoparse stale_account ''2025-12-19T18:00:00'' = Inr point_a \<and>
   list_all (\<lambda>e. \<not> is_mutating e)
     (snd (run stale_account (init ''dev'' 30 True) ''2025-12-19T18:00:00'')) \<and>
   fst (run stale_account (init ''dev'' 30 True) ''2025-12-19T18:00:00'') \<and>
   last (statuses (snd (run stale_account (init ''dev'' 30 True) ''2025-12-19T18:00:00''))) =
     (''COMPLETED'', None) \<and>
   exit_code stale_account (init ''dev'' 30 True) ''2025-12-19T18:00:00'' = 0"
proof -
  have d: "dry_run (init ''dev'' 30 True)" "0 < timeout_minutes (init ''dev'' 30 True)"
    by (simp_all add: init_def)
  have p: "isoparse stale_account ''2025-12-19T18:00:00'' = Inr point_a"
    by (simp add: stale_account_def example_isoparse_def)
  have v: "fst (validate_restore_point stale_account h ''2025-12-19T18:00:00'')" for h
    by (simp add: validate_restore_point_def stale_account_def example_isoparse_def
        now_point_def point_a_def timedelta_days_def)
  have l: "lock_acquire stale_account h" for h
    by (simp add: stale_account_def)
  note t = dry_run_no_mutation [OF d(1), of stale_account "''2025-12-19T18:00:00''"]
  from t have m: "\<forall>e \<in> set (snd (run stale_account (init ''dev'' 30 True)
      ''2025-12-19T18:00:00'')). \<not> is_mutating e"
    by blast
  from t p v l d(2) have
    c1: "run stale_account (init ''dev'' 30 True) ''2025-12-19T18:00:00'' =
          (True, validated stale_account (init ''dev'' 30 True) ''2025-12-19T18:00:00'' point_a @
             [LockAcquired, LockReleased, StatusUpdate ''COMPLETED'' None])"
    and c2: "last (statuses (snd (run stale_account (init ''dev'' 30 True)
      ''2025-12-19T18:00:00''))) = (''COMPLETED'', None)"
    and c3: "exit_code stale_account (init ''dev'' 30 True) ''2025-12-19T18:00:00'' = 0"
    by blast+
  from c1 have f: "fst (run stale_account (init ''dev'' 30 True) ''2025-12-19T18:00:00'')"
    by simp
  from d(1) p m f c2 c3 show ?thesis by (simp add: list_all_iff)
qed

subsection \<open>Reuse of existing restore tables\<close>

lemma from_poll_phases:
  "from_poll w h self rt =
     (let polling = poll_restore_completion w h self rt;
          counts = verify_item_counts w (h @ snd polling) self rt;
          swap = swap_data w (h @ snd polling @ snd counts) self rt;
          cleanup = delete_restore_tables w (h @ snd polling @ snd counts @ snd swap) self rt
      in if \<not> fst polling
         then (False, snd polling @
                 [StatusUpdate ''FAILED'' (Some ''Restore operation timed out'')])
         else if \<not> fst counts
         then (False, snd polling @ snd counts @
                 [StatusUpdate ''FAILED'' (Some ''Item count mismatch'')])
         else if \<not> fst swap
         then (False, snd polling @ snd counts @ snd swap @
                 [StatusUpdate ''FAILED'' (Some ''Data swap failed'')])
         else (True, snd polling @ snd counts @ snd swap @ snd cleanup))"
  by (simp add: from_poll_def Let_def split_beta update_status_def)

text \<open>
  C5: when at least one restore table derived from the restore point exists (whether
  all of them are \<^verbatim>\<open>ACTIVE\<close> or not), the run issues no restore initiation and its
  events before the validation are the probes of the restore table names alone. Once
  the point is validated and the lock acquired, the run consists of the polling, then
  the item counts, then the swap, then the deletion of the restore tables, each phase
  entered when the one before it has succeeded: a phase that fails ends the run with
  its \<^verbatim>\<open>FAILED\<close> record, and a run whose swap succeeds ends \<^verbatim>\<open>COMPLETED\<close>.
\<close>

theorem reuse_skips_initiation:
  assumes "isoparse w rp = Inr dt"
    and "fst (check_existing_restore_tables w [update_status ''INITIALIZING'' None]
           (run_names w self0 dt)) \<noteq> []"
  shows "(\<forall>e \<in> set (snd (run w self0 rp)). \<not> is_restore_call e) \<and>
     preflight w self0 dt =
       update_status ''INITIALIZING'' None #
       snd (check_existing_restore_tables w [update_status ''INITIALIZING'' None]
              (run_names w self0 dt)) \<and>
     (fst (validate_restore_point w (preflight w self0 dt) rp) \<and>
      lock_acquire w (validated w self0 rp dt) \<longrightarrow>
        (let self = set_restore_point self0 dt;
             rt = run_names w self0 dt;
             h = validated w self0 rp dt @ [LockAcquired];
             polling = poll_restore_completion w h self rt;
             counts = verify_item_counts w (h @ snd polling) self rt;
             swap = swap_data w (h @ snd polling @ snd counts) self rt;
             cleanup = delete_restore_tables w (h @ snd polling @ snd counts @ snd swap)
                         self rt
         in run w self0 rp =
            (if \<not> fst polling
             then (False, h @ snd polling @
                     [StatusUpdate ''FAILED'' (Some ''Restore operation timed out''),
                      LockReleased])
             else if \<not> fst counts
             then (False, h @ snd polling @ snd counts @
                     [StatusUpdate ''FAILED'' (Some ''Item count mismatch''), LockReleased])
             else if \<not> fst swap
             then (False, h @ snd polling @ snd counts @ snd swap @
                     [StatusUpdate ''FAILED'' (Some ''Data swap failed''), LockReleased])
             else (True, h @ snd polling @ snd counts @ snd swap @ snd cleanup @
                     [LockReleased, StatusUpdate ''COMPLETED'' None]))))"
proof -
  let ?self = "set_restore_point self0 dt"
  let ?h0 = "[update_status ''INITIALIZING'' None]"
  from assms(2) have ru: "reuse_or_cleanup w ?h0 ?self (run_names w self0 dt) =
      (True, snd (check_existing_restore_tables w ?h0 (run_names w self0 dt)))"
    by (simp add: reuse_or_cleanup_def split_beta)
  then have pre: "preflight w self0 dt =
       update_status ''INITIALIZING'' None #
       snd (check_existing_restore_tables w ?h0 (run_names w self0 dt))"
    by (simp add: preflight_def run_names_def Let_def)
  have pre_ok: "\<forall>e \<in> set (validated w self0 rp dt). \<not> is_restore_call e"
    using is_validation_validate [of w "preflight w self0 dt" rp]
    by (auto simp: validated_def dest!: preflight_events)
  have a: "\<forall>e \<in> set (snd (run w self0 rp)). \<not> is_restore_call e"
  proof (cases "fst (validate_restore_point w (preflight w self0 dt) rp)")
    case False
    from pre_ok show ?thesis
      by (auto simp: run_invalid [OF assms(1) False] False validated_def)
  next
    case True
    show ?thesis
    proof (cases "lock_acquire w (validated w self0 rp dt)")
      case False
      from pre_ok show ?thesis
        by (auto simp: run_lock_failed [OF assms(1) True False] False)
    next
      case lock: True
      from ru have "fst (reuse_or_cleanup w ?h0 ?self (run_names w self0 dt))" by simp
      note b = run_skip [OF assms(1) True lock this]
      let ?h = "validated w self0 rp dt @ [LockAcquired]"
      have "\<forall>e \<in> set (snd (from_poll w ?h ?self (run_names w self0 dt))). \<not> is_restore_call e"
        by (auto dest!: from_poll_events simp: count_outcome_def)
      with pre_ok show ?thesis
        by (auto simp: run_Inr [OF b])
    qed
  qed
  have c: "run w self0 rp =
      (fst (from_poll w (validated w self0 rp dt @ [LockAcquired]) ?self (run_names w self0 dt)),
       (validated w self0 rp dt @ [LockAcquired]) @
       snd (from_poll w (validated w self0 rp dt @ [LockAcquired]) ?self (run_names w self0 dt)) @
       LockReleased #
        (if fst (from_poll w (validated w self0 rp dt @ [LockAcquired]) ?self
                   (run_names w self0 dt))
         then [StatusUpdate ''COMPLETED'' None] else []))"
    if v: "fst (validate_restore_point w (preflight w self0 dt) rp)"
      and l: "lock_acquire w (validated w self0 rp dt)"
  proof -
    from ru have "fst (reuse_or_cleanup w ?h0 ?self (run_names w self0 dt))" by simp
    from run_Inr [OF run_skip [OF assms(1) v l this]] show ?thesis .
  qed
  have "fst (validate_restore_point w (preflight w self0 dt) rp) \<and>
      lock_acquire w (validated w self0 rp dt) \<longrightarrow>
        (let self = set_restore_point self0 dt;
             rt = run_names w self0 dt;
             h = validated w self0 rp dt @ [LockAcquired];
             polling = poll_restore_completion w h self rt;
             counts = verify_item_counts w (h @ snd polling) self rt;
             swap = swap_data w (h @ snd polling @ snd counts) self rt;
             cleanup = delete_restore_tables w (h @ snd polling @ snd counts @ snd swap)
                         self rt
         in run w self0 rp =
            (if \<not> fst polling
             then (False, h @ snd polling @
                     [StatusUpdate ''FAILED'' (Some ''Restore operation timed out''),
                      LockReleased])
             else if \<not> fst counts
             then (False, h @ snd polling @ snd counts @
                     [StatusUpdate ''FAILED'' (Some ''Item count mismatch''), LockReleased])
             else if \<not> fst swap
             then (False, h @ snd polling @ snd counts @ snd swap @
                     [StatusUpdate ''FAILED'' (Some ''Data swap failed''), LockReleased])
             else (True, h @ snd polling @ snd counts @ snd swap @ snd cleanup @
                     [LockReleased, StatusUpdate ''COMPLETED'' None])))"
    using c by (simp add: from_poll_phases Let_def)
  with a pre show ?thesis by blast
qed

lemma update_nonempty: "AList.update k v xs \<noteq> []"
  by (cases xs) auto

lemma check_existing_loop_keeps:
  "ex \<noteq> [] \<Longrightarrow> fst (check_existing_loop w h rt ex ks) \<noteq> []"
  by (induction ks arbitrary: h ex)
    (auto simp: Let_def split_beta update_nonempty split: response.splits)

lemma active_account_existing:
  "fst (check_existing_restore_tables active_account h rt) \<noteq> []"
  by (simp add: check_existing_restore_tables_def table_keys_def active_account_def
      stale_account_def Let_def split_beta check_existing_loop_keeps update_nonempty)

theorem reuse_skips_initiation_witness:
  "isoparse active_account ''2025-12-19T18:00:00'' = Inr point_a \<and>
   fst (check_existing_restore_tables active_account [update_status ''INITIALIZING'' None]
          (run_names active_account (init ''dev'' 30 False) point_a)) \<noteq> [] \<and>
   fst (validate_restore_point active_account
          (preflight active_account (init ''dev'' 30 False) point_a) ''2025-12-19T18:00:00'') \<and>
   lock_acquire active_account
     (validated active_account (init ''dev'' 30 False) ''2025-12-19T18:00:00'' point_a) \<and>
   list_all (\<lambda>e. \<not> is_restore_call e)
     (snd (run active_account (init ''dev'' 30 False) ''2025-12-19T18:00:00'')) \<and>
   run active_account (init ''dev'' 30 False) ''2025-12-19T18:00:00'' =
     (True,
      [StatusUpdate ''INITIALIZING'' None,
       Call (DescribeTable ''quote-lambda-tf-quotes-dev-restore-20251219180000''),
       Call (DescribeTable ''quote-lambda-tf-user-likes-dev-restore-20251219180000''),
       Call (DescribeTable ''quote-lambda-tf-user-views-dev-restore-20251219180000''),
       Log (WithinLimit 2 0), LockAcquired,
       Call (DescribeTable ''quote-lambda-tf-quotes-dev-restore-20251219180000''),
       Call (DescribeTable ''quote-lambda-tf-user-likes-dev-restore-20251219180000''),
       Call (DescribeTable ''quote-lambda-tf-user-views-dev-restore-20251219180000''),
       Call (ScanCount ''quote-lambda-tf-quotes-dev''),
       Call (ScanCount ''quote-lambda-tf-quotes-dev-restore-20251219180000''),
       Log (CountsMatch quotes 0 0),
       Call (ScanCount ''quote-lambda-tf-user-likes-dev''),
       Call (ScanCount ''quote-lambda-tf-user-likes-dev-restore-20251219180000''),
       Log (CountsMatch user_likes 0 0),
       Call (ScanCount ''quote-lambda-tf-user-views-dev''),
       Call (ScanCount ''quote-lambda-tf-user-views-dev-restore-20251219180000''),
       Log (CountsMatch user_views 0 0),
       Call (DescribeTable ''quote-lambda-tf-quotes-dev''),
       Call (Scan ''quote-lambda-tf-quotes-dev'' None),
       Call (Scan ''quote-lambda-tf-quotes-dev-restore-20251219180000'' None),
       Call (DescribeTable ''quote-lambda-tf-user-likes-dev''),
       Call (Scan ''quote-lambda-tf-user-likes-dev'' None),
       Call (Scan ''quote-lambda-tf-user-likes-dev-restore-20251219180000'' None),
       Call (DescribeTable ''quote-lambda-tf-user-views-dev''),
       Call (Scan ''quote-lambda-tf-user-views-dev'' None),
       Call (Scan ''quote-lambda-tf-user-views-dev-restore-20251219180000'' None),
       Call (DeleteTable ''quote-lambda-tf-quotes-dev-restore-20251219180000''),
       Call (DeleteTable ''quote-lambda-tf-user-likes-dev-restore-20251219180000''),
       Call (DeleteTable ''quote-lambda-tf-user-views-dev-restore-20251219180000''),
       LockReleased, StatusUpdate ''COMPLETED'' None])"
proof -
  let ?self = "set_restore_point (init ''dev'' 30 False) point_a"
  let ?rt = "run_names active_account (init ''dev'' 30 False) point_a"
  let ?H0 = "[StatusUpdate ''INITIALIZING'' None,
       Call (DescribeTable ''quote-lambda-tf-quotes-dev-restore-20251219180000''),
       Call (DescribeTable ''quote-lambda-tf-user-likes-dev-restore-20251219180000''),
       Call (DescribeTable ''quote-lambda-tf-user-views-dev-restore-20251219180000''),
       Log (WithinLimit 2 0), LockAcquired]"
  let ?P = "[Call (DescribeTable ''quote-lambda-tf-quotes-dev-restore-20251219180000''),
       Call (DescribeTable ''quote-lambda-tf-user-likes-dev-restore-20251219180000''),
       Call (DescribeTable ''quote-lambda-tf-user-views-dev-restore-20251219180000'')]"
  let ?C = "[Call (ScanCount ''quote-lambda-tf-quotes-dev''),
       Call (ScanCount ''quote-lambda-tf-quotes-dev-restore-20251219180000''),
       Log (CountsMatch quotes 0 0),
       Call (ScanCount ''quote-lambda-tf-user-likes-dev''),
       Call (ScanCount ''quote-lambda-tf-user-likes-dev-restore-20251219180000''),
       Log (CountsMatch user_likes 0 0),
       Call (ScanCount ''quote-lambda-tf-user-views-dev''),
       Call (ScanCount ''quote-lambda-tf-user-views-dev-restore-20251219180000''),
       Log (CountsMatch user_views 0 0)]"
  let ?S = "[Call (DescribeTable ''quote-lambda-tf-quotes-dev''),
       Call (Scan ''quote-lambda-tf-quotes-dev'' None),
       Call (Scan ''quote-lambda-tf-quotes-dev-restore-20251219180000'' None),
       Call (DescribeTable ''quote-lambda-tf-user-likes-dev''),
       Call (Scan ''quote-lambda-tf-user-likes-dev'' None),
       Call (Scan ''quote-lambda-tf-user-likes-dev-restore-20251219180000'' None),
       Call (DescribeTable ''quote-lambda-tf-user-views-dev''),
       Call (Scan ''quote-lambda-tf-user-views-dev'' None),
       Call (Scan ''quote-lambda-tf-user-views-dev-restore-20251219180000'' None)]"
  let ?D = "[Call (DeleteTable ''quote-lambda-tf-quotes-dev-restore-20251219180000''),
       Call (DeleteTable ''quote-lambda-tf-user-likes-dev-restore-20251219180000''),
       Call (DeleteTable ''quote-lambda-tf-user-views-dev-restore-20251219180000'')]"
  have p: "isoparse active_account ''2025-12-19T18:00:00'' = Inr point_a"
    by (simp add: active_account_def stale_account_def example_isoparse_def)
  have v: "fst (validate_restore_point active_account h ''2025-12-19T18:00:00'')" for h
    by (simp add: validate_restore_point_def active_account_def stale_account_def
        example_isoparse_def now_point_def point_a_def timedelta_days_def)
  have l: "lock_acquire active_account h" for h
    by (simp add: active_account_def stale_account_def)
  note t = reuse_skips_initiation [OF p active_account_existing, of "init ''dev'' 30 False"]
  have e0: "validated active_account (init ''dev'' 30 False) ''2025-12-19T18:00:00'' point_a @
    [LockAcquired] = ?H0"
    by code_simp
  have e1: "poll_restore_completion active_account ?H0 ?self ?rt = (True, ?P)"
    by code_simp
  have e2: "verify_item_counts active_account (?H0 @ ?P) ?self ?rt = (True, ?C)"
    by code_simp
  have e3: "swap_data active_account (?H0 @ ?P @ ?C) ?self ?rt = (True, ?S)"
    by code_simp
  have e4: "delete_restore_tables active_account (?H0 @ ?P @ ?C @ ?S) ?self ?rt = (True, ?D)"
    by code_simp
  note r = t [THEN conjunct2, THEN conjunct2, THEN mp, OF conjI, OF v l]
  note e = e0 e1 e2 [unfolded append.simps] e3 [unfolded append.simps]
    e4 [unfolded append.simps]
  from r have c: "run active_account (init ''dev'' 30 False) ''2025-12-19T18:00:00'' =
     (True, ?H0 @ ?P @ ?C @ ?S @ ?D @ [LockReleased, StatusUpdate ''COMPLETED'' None])"
    by (simp only: Let_def e snd_conv fst_conv not_True_eq_False if_False append.simps)
  from t have "\<forall>e \<in> set (snd (run active_account (init ''dev'' 30 False)
      ''2025-12-19T18:00:00'')). \<not> is_restore_call e"
    by blast
  then have m: "list_all (\<lambda>e. \<not> is_restore_call e)
     (snd (run active_account (init ''dev'' 30 False) ''2025-12-19T18:00:00''))"
    by (simp add: list_all_iff)
  from p active_account_existing [of "[update_status ''INITIALIZING'' None]" ?rt]
    v [of "preflight active_account (init ''dev'' 30 False) point_a"]
    l [of "validated active_account (init ''dev'' 30 False) ''2025-12-19T18:00:00'' point_a"]
    m c
  show ?thesis by simp
qed

subsection \<open>Polling timeout\<close>

lemma poll_tables_False: "fst (poll_tables w h self rt False ks) \<noteq> Some True"
  by (induction ks arbitrary: h)
    (auto simp: Let_def split_beta split: response.splits)

lemma poll_loop_True:
  "fst (poll_loop w self rt h el) \<Longrightarrow>
     \<exists>h'. fst (poll_tables w h' self rt True table_keys) = Some True"
proof (induction w self rt h el rule: poll_loop.induct)
  case (1 w self rt h el)
  show ?case
  proof (cases "el < timeout_minutes self * 60")
    case False
    with "1.prems" show ?thesis by (simp add: poll_loop.simps [of w self rt h el])
  next
    case True
    obtain r evs where p: "poll_tables w h self rt True table_keys = (r, evs)"
      by (cases "poll_tables w h self rt True table_keys")
    show ?thesis
    proof (cases r)
      case None
      with "1.prems" True p show ?thesis
        by (simp add: poll_loop.simps [of w self rt h el])
    next
      case (Some all_active)
      show ?thesis
      proof (cases all_active)
        case True
        with p Some have "fst (poll_tables w h self rt True table_keys) = Some True" by simp
        then show ?thesis ..
      next
        case False
        from "1.prems" \<open>el < timeout_minutes self * 60\<close> p Some False
        have "fst (poll_loop w self rt (h @ evs @ [Sleep 10]) (el + 10))"
          by (simp add: poll_loop.simps [of w self rt h el] split_beta)
        from "1.IH" [OF \<open>el < timeout_minutes self * 60\<close> p [symmetric] Some False this]
        show ?thesis .
      qed
    qed
  qed
qed

text \<open>
  C7: when a run reaches the polling and the polling returns \<^verbatim>\<open>False\<close> (no round saw
  every restore table \<^verbatim>\<open>ACTIVE\<close> before the timeout), the run returns \<^verbatim>\<open>False\<close> and
  exits with code 1, its last status record is \<^verbatim>\<open>FAILED\<close> with the reason
  \<^verbatim>\<open>Restore operation timed out\<close>, the events after the polling are that status record
  and the release of the lock, no restore table of the run is deleted and no item of any
  table is written or deleted.
\<close>

theorem poll_timeout_fails_without_cleanup:
  assumes "before_poll w self0 rp = Inr (self, rt, h)"
    and "\<not> fst (poll_restore_completion w h self rt)"
  shows "run w self0 rp =
       (False, h @ snd (poll_restore_completion w h self rt) @
          [StatusUpdate ''FAILED'' (Some ''Restore operation timed out''), LockReleased]) \<and>
     exit_code w self0 rp = 1 \<and>
     last (statuses (snd (run w self0 rp))) = (''FAILED'', Some ''Restore operation timed out'') \<and>
     (\<forall>e \<in> set (snd (run w self0 rp)).
        (\<forall>k. e \<noteq> Call (DeleteTable (rt k))) \<and> (\<forall>t rs. e \<noteq> Call (BatchWriteItem t rs)))"
proof -
  from before_poll_Inr [OF assms(1)] obtain dt where p: "isoparse w rp = Inr dt"
    and self: "self = set_restore_point self0 dt"
    and rt: "rt = get_restore_table_names self (now w [update_status ''INITIALIZING'' None])"
    by blast
  have r: "run w self0 rp =
       (False, h @ snd (poll_restore_completion w h self rt) @
          [StatusUpdate ''FAILED'' (Some ''Restore operation timed out''), LockReleased])"
    by (simp add: run_Inr [OF assms(1)] from_poll_timeout [OF assms(2)])
  have h: "(\<forall>k. e \<noteq> Call (DeleteTable (rt k))) \<and> (\<forall>t rs. e \<noteq> Call (BatchWriteItem t rs))"
    if "e \<in> set h" for e
  proof -
    from that before_poll_subset [OF p, of self0] assms(1)
    have "e \<in> set (preflight w self0 dt) \<or>
        e \<in> {Log (snd (validate_restore_point w (preflight w self0 dt) rp)),
          LockFailed, LockAcquired, LockReleased} \<or> (\<exists>s m. e = StatusUpdate s m) \<or>
        e \<in> set (snd (initiate_pitr_restores w
          (preflight w self0 dt @
            [Log (snd (validate_restore_point w (preflight w self0 dt) rp)), LockAcquired])
          (set_restore_point self0 dt) rp))"
      by auto
    then show ?thesis
      using rt self
      by (auto dest!: preflight_events initiate_pitr_restores_events)
  qed
  have pl: "(\<forall>k. e \<noteq> Call (DeleteTable (rt k))) \<and> (\<forall>t rs. e \<noteq> Call (BatchWriteItem t rs))"
    if "e \<in> set (snd (poll_restore_completion w h self rt))" for e
    using that by (auto simp: poll_restore_completion_def dest!: poll_loop_events)
  have "\<forall>e \<in> set (snd (run w self0 rp)).
        (\<forall>k. e \<noteq> Call (DeleteTable (rt k))) \<and> (\<forall>t rs. e \<noteq> Call (BatchWriteItem t rs))"
  proof
    fix e
    assume "e \<in> set (snd (run w self0 rp))"
    then have "e \<in> set h \<or> e \<in> set (snd (poll_restore_completion w h self rt)) \<or>
        e = StatusUpdate ''FAILED'' (Some ''Restore operation timed out'') \<or> e = LockReleased"
      by (auto simp: r)
    then show "(\<forall>k. e \<noteq> Call (DeleteTable (rt k))) \<and>
        (\<forall>t rs. e \<noteq> Call (BatchWriteItem t rs))"
      using h [of e] pl [of e] by auto
  qed
  moreover have "exit_code w self0 rp = 1"
    by (simp add: exit_code_def r)
  moreover have "last (statuses (snd (run w self0 rp))) =
      (''FAILED'', Some ''Restore operation timed out'')"
    by (simp add: r statuses_append)
  ultimately show ?thesis using r by blast
qed

theorem poll_timeout_fails_without_cleanup_witness:
  "\<not> isl (before_poll stale_account (init ''dev'' 1 False) ''2025-12-19T18:00:00'') \<and>
   \<not> fst (run stale_account (init ''dev'' 1 False) ''2025-12-19T18:00:00'') \<and>
   exit_code stale_account (init ''dev'' 1 False) ''2025-12-19T18:00:00'' = 1 \<and>
   last (statuses (snd (run stale_account (init ''dev'' 1 False) ''2025-12-19T18:00:00''))) =
     (''FAILED'', Some ''Restore operation timed out'') \<and>
   list_all (\<lambda>e. \<forall>t rs. e \<noteq> Call (BatchWriteItem t rs))
     (snd (run stale_account (init ''dev'' 1 False) ''2025-12-19T18:00:00''))"
proof -
  have i: "\<not> isl (before_poll stale_account (init ''dev'' 1 False) ''2025-12-19T18:00:00'')"
    by code_simp
  then obtain self rt h where
    b: "before_poll stale_account (init ''dev'' 1 False) ''2025-12-19T18:00:00'' =
      Inr (self, rt, h)"
    by (cases "before_poll stale_account (init ''dev'' 1 False) ''2025-12-19T18:00:00''") auto
  from before_poll_Inr [OF b] have d: "\<not> dry_run self"
    by (auto simp: set_restore_point_def init_def)
  have "fst (poll_tables stale_account h' self rt True table_keys) \<noteq> Some True" for h'
    using d
    by (simp add: table_keys_def stale_account_def Let_def split_beta poll_tables_False)
  then have n: "\<not> fst (poll_restore_completion stale_account h self rt)"
    unfolding poll_restore_completion_def using poll_loop_True by blast
  note t = poll_timeout_fails_without_cleanup [OF b n]
  from t have "run stale_account (init ''dev'' 1 False) ''2025-12-19T18:00:00'' =
       (False, h @ snd (poll_restore_completion stale_account h self rt) @
          [StatusUpdate ''FAILED'' (Some ''Restore operation timed out''), LockReleased])"
    by blast
  then have f: "\<not> fst (run stale_account (init ''dev'' 1 False) ''2025-12-19T18:00:00'')"
    by simp
  from t have "\<forall>e \<in> set (snd (run stale_account (init ''dev'' 1 False)
      ''2025-12-19T18:00:00'')). \<forall>t rs. e \<noteq> Call (BatchWriteItem t rs)"
    by blast
  then have m: "list_all (\<lambda>e. \<forall>t rs. e \<noteq> Call (BatchWriteItem t rs))
     (snd (run stale_account (init ''dev'' 1 False) ''2025-12-19T18:00:00''))"
    by (simp add: list_all_iff)
  from t have c: "exit_code stale_account (init ''dev'' 1 False) ''2025-12-19T18:00:00'' = 1"
    "last (statuses (snd (run stale_account (init ''dev'' 1 False) ''2025-12-19T18:00:00''))) =
     (''FAILED'', Some ''Restore operation timed out'')"
    by blast+
  from i f c m show ?thesis by blast
qed

end
